theory Spec2Isabelle
  imports Main "HOL-Library.Sublist"
begin

unbundle bit_operations_syntax

section \<open>A minimal Unix shell (shell.py): parsing\<close>

text \<open>
  Python strings are modelled as \<^typ>\<open>string\<close>; a character stands for a code point
  below 256. The two quote characters are written by their code.
\<close>

abbreviation sq :: char where "sq \<equiv> CHR 0x27"
abbreviation dq :: char where "dq \<equiv> CHR 0x22"

subsection \<open>Whitespace, strip and rstrip\<close>

text \<open>
  \<^verbatim>\<open>str.isspace\<close>, \<^verbatim>\<open>str.strip\<close> and the regular expression class \<^verbatim>\<open>\s\<close> of a
  \<^verbatim>\<open>str\<close> pattern all use the same test. Below 256 it holds for the code points
  9 to 13, 28 to 32, 133 and 160.
\<close>

definition isspace :: "char \<Rightarrow> bool" where
  "isspace c \<longleftrightarrow> c \<in> set [CHR 0x09, CHR 0x0A, CHR 0x0B, CHR 0x0C, CHR 0x0D,
     CHR 0x1C, CHR 0x1D, CHR 0x1E, CHR 0x1F, CHR 0x20, CHR 0x85, CHR 0xA0]"

definition rstrip :: "string \<Rightarrow> string" where
  "rstrip s = rev (dropWhile isspace (rev s))"

definition strip :: "string \<Rightarrow> string" where
  "strip s = dropWhile isspace (rstrip s)"

subsection \<open>The token pattern\<close>

text \<open>
  \<^verbatim>\<open>_token_re\<close> is compiled with \<^verbatim>\<open>re.VERBOSE\<close>: blanks and comments of the pattern
  are dropped, except inside a character class. What is left is
  \<^verbatim>\<open>\s*('[^']*'|"[^"]*"|[^ \t\r\n'"]+)\<close>.
  The pattern language needed is small: character classes, one character of a class,
  a greedy star and plus over a class, sequence and ordered alternative.
  \<open>rx_match\<close> gives the remainders of the input after every way of matching, in
  the order the backtracking matcher of \<^verbatim>\<open>re\<close> tries them (greedy repetitions give
  the longest first, alternatives left to right); \<^verbatim>\<open>re.match\<close> takes the first.
\<close>

datatype cls = Lit char | NotIn "char list" | Space

fun cls_ok :: "cls \<Rightarrow> char \<Rightarrow> bool" where
  "cls_ok (Lit a) c = (c = a)"
| "cls_ok (NotIn as) c = (c \<notin> set as)"
| "cls_ok Space c = isspace c"

datatype rx = One cls | Many cls | Many1 cls | Seq rx rx | Alt rx rx

fun many :: "cls \<Rightarrow> string \<Rightarrow> string list" where
  "many k [] = [[]]"
| "many k (c # cs) = (if cls_ok k c then many k cs @ [c # cs] else [c # cs])"

fun rx_match :: "rx \<Rightarrow> string \<Rightarrow> string list" where
  "rx_match (One k) s = (case s of [] \<Rightarrow> [] | c # cs \<Rightarrow> if cls_ok k c then [cs] else [])"
| "rx_match (Many k) s = many k s"
| "rx_match (Many1 k) s = (case s of [] \<Rightarrow> [] | c # cs \<Rightarrow> if cls_ok k c then many k cs else [])"
| "rx_match (Seq a b) s = concat (map (rx_match b) (rx_match a s))"
| "rx_match (Alt a b) s = rx_match a s @ rx_match b s"

definition quoted_rx :: "char \<Rightarrow> rx" where
  "quoted_rx q = Seq (One (Lit q)) (Seq (Many (NotIn [q])) (One (Lit q)))"

definition bare_rx :: rx where
  "bare_rx = Many1 (NotIn [CHR 0x20, CHR 0x09, CHR 0x0D, CHR 0x0A, sq, dq])"

definition token_group :: rx where
  "token_group = Alt (quoted_rx sq) (Alt (quoted_rx dq) bare_rx)"

text \<open>
  \<^verbatim>\<open>_token_re.match(cmd, i)\<close> on the rest \<open>s = cmd[i:]\<close>: the text of group 1 and
  the rest after \<^verbatim>\<open>m.end()\<close>, or \<open>None\<close> when nothing matches.
\<close>

definition token_re_match :: "string \<Rightarrow> (string \<times> string) option" where
  "token_re_match s =
     (case concat (map (\<lambda>r1. map (\<lambda>r2. (take (length r1 - length r2) r1, r2))
                                   (rx_match token_group r1))
                       (rx_match (Many Space) s)) of
        [] \<Rightarrow> None
      | m # _ \<Rightarrow> Some m)"

subsection \<open>split_pipeline\<close>

text \<open>
  The loop of \<^verbatim>\<open>split_pipeline\<close> over the characters, with its variables
  \<open>segs\<close>, \<open>buf\<close>, \<open>in_s\<close> and \<open>in_d\<close>.
\<close>

fun split_loop :: "string \<Rightarrow> string list \<Rightarrow> string \<Rightarrow> bool \<Rightarrow> bool \<Rightarrow> string list \<times> string" where
  "split_loop [] segs buf in_s in_d = (segs, buf)"
| "split_loop (ch # rest) segs buf in_s in_d =
     (if ch = sq \<and> \<not> in_d then split_loop rest segs (buf @ [ch]) (\<not> in_s) in_d
      else if ch = dq \<and> \<not> in_s then split_loop rest segs (buf @ [ch]) in_s (\<not> in_d)
      else if ch = CHR ''|'' \<and> \<not> in_s \<and> \<not> in_d then split_loop rest (segs @ [strip buf]) [] in_s in_d
      else split_loop rest segs (buf @ [ch]) in_s in_d)"

definition split_pipeline :: "string \<Rightarrow> string list" where
  "split_pipeline line =
     (let (segs, buf) = split_loop line [] [] False False;
          segs2 = (if buf \<noteq> [] then segs @ [strip buf] else segs)
      in filter (\<lambda>s. s \<noteq> []) segs2)"

subsection \<open>tokenize\<close>

definition strip_quotes :: "string \<Rightarrow> string" where
  "strip_quotes tok =
     (if length tok \<ge> 2 \<and> ((hd tok = sq \<and> last tok = sq) \<or> (hd tok = dq \<and> last tok = dq))
      then butlast (tl tok) else tok)"

lemma many_length: "r \<in> set (many k s) \<Longrightarrow> length r \<le> length s"
  by (induction s) (auto split: if_splits)

lemma quoted_rx_shorter: "r \<in> set (rx_match (quoted_rx q) s) \<Longrightarrow> length r < length s"
  by (cases s) (auto simp: quoted_rx_def split: if_splits list.splits dest!: many_length)

lemma bare_rx_shorter: "r \<in> set (rx_match bare_rx s) \<Longrightarrow> length r < length s"
  by (cases s) (auto simp: bare_rx_def split: if_splits dest!: many_length)

lemma token_group_shorter: "r \<in> set (rx_match token_group s) \<Longrightarrow> length r < length s"
  by (auto simp: token_group_def dest: quoted_rx_shorter bare_rx_shorter)

lemma token_re_match_shorter:
  assumes "token_re_match s = Some (tok, rest)"
  shows "length rest < length s"
proof -
  let ?ms = "concat (map (\<lambda>r1. map (\<lambda>r2. (take (length r1 - length r2) r1, r2))
                                   (rx_match token_group r1))
                       (rx_match (Many Space) s))"
  from assms obtain ms where "?ms = (tok, rest) # ms"
    by (auto simp: token_re_match_def split: list.splits)
  then have "(tok, rest) \<in> set ?ms"
    by (metis list.set_intros(1))
  then obtain r1 where r1: "r1 \<in> set (many Space s)" and r2: "rest \<in> set (rx_match token_group r1)"
    by auto
  from r2 have "length rest < length r1" by (rule token_group_shorter)
  with many_length [OF r1] show ?thesis by simp
qed

text \<open>
  The loop of \<^verbatim>\<open>tokenize\<close>, on the rest \<open>cmd[i:]\<close> of the segment; the tokens
  appended from there on are the result.
\<close>

function tokenize_loop :: "string \<Rightarrow> string list" where
  "tokenize_loop s =
     (if s = [] then []
      else case token_re_match s of
             None \<Rightarrow> (if isspace (hd s) then tokenize_loop (tl s)
                       else [hd s] # tokenize_loop (tl s))
           | Some (tok, rest) \<Rightarrow> strip_quotes tok # tokenize_loop rest)"
  by pat_completeness auto
termination
  by (relation "measure length") (auto dest: token_re_match_shorter)

declare tokenize_loop.simps [simp del]

definition tokenize :: "string \<Rightarrow> string list" where
  "tokenize cmd = tokenize_loop cmd"

subsection \<open>parse_redirections and parse_background\<close>

text \<open>
  The loop of \<^verbatim>\<open>parse_redirections\<close> on the rest \<open>argv[i:]\<close>, with its variables
  \<open>out\<close>, \<open>infile\<close> and \<open>outfile\<close>. \<open>i + 1 < L\<close> says that the rest after the
  current token is not empty.
\<close>

fun redir_loop :: "string list \<Rightarrow> string list \<Rightarrow> string option \<Rightarrow> string option
    \<Rightarrow> string list \<times> string option \<times> string option" where
  "redir_loop [] out fin fout = (out, fin, fout)"
| "redir_loop (t # rest) out fin fout =
     (if t = ''<'' \<and> rest \<noteq> [] then redir_loop (tl rest) out (Some (hd rest)) fout
      else if t = ''>'' \<and> rest \<noteq> [] then redir_loop (tl rest) out fin (Some (hd rest))
      else redir_loop rest (out @ [t]) fin fout)"

definition parse_redirections :: "string list \<Rightarrow> string list \<times> string option \<times> string option" where
  "parse_redirections argv = redir_loop argv [] None None"

definition parse_background :: "string \<Rightarrow> string \<times> bool" where
  "parse_background line =
     (let stripped = rstrip line
      in if stripped \<noteq> [] \<and> last stripped = CHR ''&''
         then (rstrip (butlast stripped), True)
         else (line, False))"

subsection \<open>Stages and parse_line_into_stages\<close>

record stage =
  argv :: "string list"
  infile :: "string option"
  outfile :: "string option"

fun stages_loop :: "string list \<Rightarrow> stage list \<Rightarrow> stage list" where
  "stages_loop [] stages = stages"
| "stages_loop (seg # segs) stages =
     (let av = tokenize seg
      in if length av = 0 then stages_loop segs stages
         else (let (av2, fin, fout) = parse_redirections av
               in stages_loop segs (stages @ [\<lparr>argv = av2, infile = fin, outfile = fout\<rparr>])))"

definition parse_line_into_stages :: "string \<Rightarrow> stage list \<times> bool" where
  "parse_line_into_stages line =
     (let (line2, is_bg) = parse_background line;
          segs = split_pipeline line2
      in (stages_loop segs [], is_bg))"

section \<open>The operating system as the shell sees it\<close>

text \<open>
  The answers of the environment are parameters of the model. A call that the source
  guards with \<^verbatim>\<open>try\<close> has both outcomes: \<open>Some e\<close> (or \<open>Inl e\<close>) is an
  \<^verbatim>\<open>OSError\<close> whose text \<^verbatim>\<open>str(e)\<close> is \<open>e\<close>. \<^verbatim>\<open>os.fork\<close>, \<^verbatim>\<open>os.pipe\<close>,
  \<^verbatim>\<open>os.dup2\<close> and \<^verbatim>\<open>os.close\<close> succeed.
  \<open>os_execve\<close> is the system call behind \<^verbatim>\<open>os.execve\<close>; what Python checks
  before it makes the call is in \<open>py_execve\<close> below.
  \<open>os_finished\<close> lists the children that terminate otherwise than by an exit code
  given in \<^verbatim>\<open>run_pipeline\<close> (the programs started by a successful \<^verbatim>\<open>os.execve\<close>,
  and a child that went on in the loop of \<^verbatim>\<open>main\<close>), as pairs of process id and raw
  wait status, in the order in which they terminate.
\<close>

record os =
  os_environ :: "string \<Rightarrow> string option"
  os_stat :: "string \<Rightarrow> bool"
  os_access_x :: "string \<Rightarrow> bool"
  os_open_rd :: "string \<Rightarrow> string option"
  os_open_wr :: "string \<Rightarrow> string option"
  os_chdir :: "string \<Rightarrow> string \<Rightarrow> string + string"
  os_execve :: "string \<Rightarrow> string list \<Rightarrow> string option"
  os_int :: "string \<Rightarrow> int option"
  os_fork :: "nat \<Rightarrow> nat"
  os_finished :: "(nat \<times> int) list"

text \<open>
  A process: its working directory, what its descriptors 0 and 1 are bound to, and the
  \<^verbatim>\<open>os.write(fd, data)\<close> calls it has issued, oldest first. A forked child starts as
  a copy of its parent with a log of its own.
\<close>

datatype fdtarget = Inherited | PipeRead nat | PipeWrite nat | File string

record proc =
  cwd :: string
  fd0 :: fdtarget
  fd1 :: fdtarget
  writes :: "(nat \<times> string) list"

definition forked :: "proc \<Rightarrow> proc" where
  "forked p = p\<lparr>writes := []\<rparr>"

definition eprint :: "proc \<Rightarrow> string \<Rightarrow> proc" where
  "eprint p msg = p\<lparr>writes := writes p @ [(2, msg @ [CHR 0x0A])]\<rparr>"

subsection \<open>PATH lookup\<close>

definition is_executable :: "os \<Rightarrow> string \<Rightarrow> bool" where
  "is_executable w fp = (if \<not> os_stat w fp then False else os_access_x w fp)"

text \<open>\<^verbatim>\<open>str.split(sep)\<close> for a separator of one character.\<close>

fun split_sep :: "char \<Rightarrow> string \<Rightarrow> string list" where
  "split_sep sep [] = [[]]"
| "split_sep sep (c # cs) =
     (if c = sep then [] # split_sep sep cs
      else (case split_sep sep cs of [] \<Rightarrow> [[c]] | x # xs \<Rightarrow> (c # x) # xs))"

text \<open>\<^verbatim>\<open>os.path.join(a, b)\<close> of \<^verbatim>\<open>posixpath\<close>, for two components.\<close>

definition os_path_join :: "string \<Rightarrow> string \<Rightarrow> string" where
  "os_path_join a b =
     (if b \<noteq> [] \<and> hd b = CHR ''/'' then b
      else if a = [] \<or> last a = CHR ''/'' then a @ b
      else a @ ''/'' @ b)"

fun resolve_loop :: "os \<Rightarrow> string \<Rightarrow> string list \<Rightarrow> string option" where
  "resolve_loop w prog [] = None"
| "resolve_loop w prog (d # ds) =
     (let d2 = (if d = [] then ''.'' else d);
          cand = os_path_join d2 prog
      in if is_executable w cand then Some cand else resolve_loop w prog ds)"

definition resolve_command :: "os \<Rightarrow> string \<Rightarrow> string option" where
  "resolve_command w prog =
     (if CHR ''/'' \<in> set prog then (if is_executable w prog then Some prog else None)
      else (let path = (case os_environ w ''PATH'' of None \<Rightarrow> [] | Some v \<Rightarrow> v)
            in resolve_loop w prog (split_sep CHR '':'' path)))"

subsection \<open>Builtins\<close>

text \<open>
  A call either returns a value or ends the process (\<^verbatim>\<open>sys.exit\<close>, \<^verbatim>\<open>os._exit\<close>).
\<close>

datatype 'a ctl = Return 'a | Exit int

definition is_builtin :: "string list \<Rightarrow> bool" where
  "is_builtin av \<longleftrightarrow> length av > 0 \<and> av ! 0 \<in> set [''exit'', ''cd'']"

definition run_builtin :: "os \<Rightarrow> proc \<Rightarrow> string list \<Rightarrow> int ctl \<times> proc" where
  "run_builtin w p av =
     (if length av = 0 then (Return 0, p)
      else let cmd = av ! 0 in
        if cmd = ''exit'' then
          (let code = (if length av > 1
                       then (case os_int w (av ! 1) of Some n \<Rightarrow> n | None \<Rightarrow> 1)
                       else 0)
           in (Exit code, p))
        else if cmd = ''cd'' then
          (let path = (if length av \<ge> 2 then Some (av ! 1) else os_environ w ''HOME'')
           in case path of
                None \<Rightarrow> (Return 1, eprint p ''cd: HOME not set'')
              | Some d \<Rightarrow>
                  (case os_chdir w (cwd p) d of
                     Inr dir \<Rightarrow> (Return 0, p\<lparr>cwd := dir\<rparr>)
                   | Inl e \<Rightarrow> (Return 1, eprint p (''cd: '' @ e))))
        else (Return 0, p))"

subsection \<open>Children\<close>

definition setup_redirection :: "os \<Rightarrow> proc \<Rightarrow> string option \<Rightarrow> string option \<Rightarrow> bool \<times> proc" where
  "setup_redirection w p fin fout =
     (case (case fin of
              None \<Rightarrow> Inr p
            | Some f \<Rightarrow> (case os_open_rd w f of
                           Some e \<Rightarrow> Inl (eprint p (f @ '': '' @ e))
                         | None \<Rightarrow> Inr (p\<lparr>fd0 := File f\<rparr>))) of
        Inl p1 \<Rightarrow> (False, p1)
      | Inr p1 \<Rightarrow>
          (case fout of
             None \<Rightarrow> (True, p1)
           | Some f \<Rightarrow> (case os_open_wr w f of
                          Some e \<Rightarrow> (False, eprint p1 (f @ '': '' @ e))
                        | None \<Rightarrow> (True, p1\<lparr>fd1 := File f\<rparr>))))"

text \<open>
  \<^verbatim>\<open>os.execve(path, av, env)\<close> of Python: it raises \<^verbatim>\<open>ValueError\<close> before any system
  call when \<open>av\<close> is empty or its first element is the empty string; otherwise the
  system call replaces the program or fails with \<^verbatim>\<open>OSError\<close>. (It also refuses a string
  with a NUL character; the strings of the model are pieces of a line of text and have
  none.)
\<close>

datatype exec_result = Image | OSError string | ValueError string

definition py_execve :: "os \<Rightarrow> string \<Rightarrow> string list \<Rightarrow> exec_result" where
  "py_execve w path av =
     (case av of
        [] \<Rightarrow> ValueError ''execve: argv must not be empty''
      | a # _ \<Rightarrow>
          if a = [] then ValueError ''execve: argv first element cannot be empty''
          else (case os_execve w path av of None \<Rightarrow> Image | Some e \<Rightarrow> OSError e))"

text \<open>
  How the part of a child inside \<^verbatim>\<open>run_pipeline\<close> ends. \<open>Exited code\<close>: the process
  leaves with the exit code \<open>code\<close>. \<open>Replaced path av\<close>: a successful
  \<^verbatim>\<open>os.execve(path, av, os.environ)\<close>. \<open>Escaped msg\<close>: an exception with the text
  \<open>msg\<close> that no handler below \<^verbatim>\<open>main\<close> catches; the child leaves \<^verbatim>\<open>run_pipeline\<close>
  by it and goes on in the loop of \<^verbatim>\<open>main\<close>.
\<close>

datatype child_end = Exited int | Replaced string "string list" | Escaped string

definition exec_program :: "os \<Rightarrow> proc \<Rightarrow> string list \<Rightarrow> child_end \<times> proc" where
  "exec_program w p av =
     (if length av = 0 then (Exited 0, p)
      else let prog = av ! 0 in
        case resolve_command w prog of
          None \<Rightarrow> (Exited 127, eprint p (prog @ '': command not found''))
        | Some path \<Rightarrow>
            (case py_execve w path av of
               Image \<Rightarrow> (Replaced path av, p)
             | OSError e \<Rightarrow> (Exited 126, eprint p (prog @ '': '' @ e))
             | ValueError msg \<Rightarrow> (Escaped msg, p)))"

text \<open>The child of stage \<open>i\<close> of \<open>n\<close> in the loop of \<^verbatim>\<open>run_pipeline\<close>.\<close>

definition stage_child :: "os \<Rightarrow> proc \<Rightarrow> nat \<Rightarrow> nat \<Rightarrow> stage \<Rightarrow> child_end \<times> proc" where
  "stage_child w p n i st =
     (let p1 = (if i > 0 then p\<lparr>fd0 := PipeRead (i - 1)\<rparr> else p);
          p2 = (if int i < int n - 1 then p1\<lparr>fd1 := PipeWrite i\<rparr> else p1);
          (ok, p3) = setup_redirection w p2 (infile st) (outfile st)
      in if \<not> ok then (Exited 1, p3) else exec_program w p3 (argv st))"

text \<open>
  The exit code of a process that ends by \<^verbatim>\<open>sys.exit(code)\<close>: the low byte of \<open>code\<close>
  when it fits a C \<^verbatim>\<open>long\<close> of 64 bits, and 255 otherwise.
\<close>

definition sys_exit_code :: "int \<Rightarrow> int" where
  "sys_exit_code code = (if - (2 ^ 63) \<le> code \<and> code < 2 ^ 63 then code mod 256 else 255)"

text \<open>
  The child that runs a builtin with redirection: \<^verbatim>\<open>os._exit(code)\<close> with what
  \<^verbatim>\<open>run_builtin\<close> returns, or the end of the process by the \<^verbatim>\<open>sys.exit\<close> of
  \<open>exit\<close>.
\<close>

definition builtin_child :: "os \<Rightarrow> proc \<Rightarrow> string list \<Rightarrow> string option \<Rightarrow> string option
    \<Rightarrow> child_end \<times> proc" where
  "builtin_child w p av fin fout =
     (let (ok, p1) = setup_redirection w p fin fout
      in if \<not> ok then (Exited 1, p1)
         else (case run_builtin w p1 av of
                 (Return code, p2) \<Rightarrow> (Exited code, p2)
               | (Exit code, p2) \<Rightarrow> (Exited (sys_exit_code code), p2)))"

subsection \<open>Wait status\<close>

text \<open>
  \<^verbatim>\<open>os.WIFEXITED\<close>, \<^verbatim>\<open>os.WEXITSTATUS\<close>, \<^verbatim>\<open>os.WIFSIGNALED\<close> and \<^verbatim>\<open>os.WTERMSIG\<close> are
  the macros of the C library; they are given here as Linux defines them on the raw
  status: the low seven bits hold the terminating signal (0 for a normal exit, 127 for a
  stopped process), bits 8 to 15 the exit code.
\<close>

definition WIFEXITED :: "int \<Rightarrow> bool" where
  "WIFEXITED status \<longleftrightarrow> status AND 0x7f = 0"

definition WEXITSTATUS :: "int \<Rightarrow> int" where
  "WEXITSTATUS status = drop_bit 8 (status AND 0xff00)"

definition signed_char :: "int \<Rightarrow> int" where
  "signed_char x = (if x mod 256 \<ge> 128 then x mod 256 - 256 else x mod 256)"

definition WIFSIGNALED :: "int \<Rightarrow> bool" where
  "WIFSIGNALED status \<longleftrightarrow> drop_bit 1 (signed_char ((status AND 0x7f) + 1)) > 0"

definition WTERMSIG :: "int \<Rightarrow> int" where
  "WTERMSIG status = status AND 0x7f"

definition status_to_exitcode :: "int \<Rightarrow> int" where
  "status_to_exitcode status =
     (if WIFEXITED status then WEXITSTATUS status
      else if WIFSIGNALED status then 128 + WTERMSIG status
      else 1)"

text \<open>
  The raw status of a child that leaves with the exit code \<open>code\<close>, and
  \<^verbatim>\<open>os.waitpid(pid, 0)\<close> among the children \<open>kids\<close> of the interpreter: the status
  of the child \<open>pid\<close>, or \<open>None\<close> when the call never returns because that child
  never terminates. A child that became another program, or that went on in the loop of
  \<^verbatim>\<open>main\<close>, terminates when \<open>os_finished\<close> lists it.
\<close>

definition exit_status :: "int \<Rightarrow> int" where
  "exit_status code = push_bit 8 (code AND 0xff)"

definition os_waitpid :: "os \<Rightarrow> (nat \<times> child_end \<times> proc) list \<Rightarrow> nat \<Rightarrow> int option" where
  "os_waitpid w kids pid =
     (case map_of kids pid of
        None \<Rightarrow> None
      | Some (Exited code, _) \<Rightarrow> Some (exit_status code)
      | Some (Replaced path av, _) \<Rightarrow> map_of (os_finished w) pid
      | Some (Escaped msg, _) \<Rightarrow> map_of (os_finished w) pid)"

subsection \<open>run_pipeline\<close>

text \<open>
  What the interpreter does in a call of \<^verbatim>\<open>run_pipeline\<close>: the pipes it makes,
  the children it forks, the pipes it closes and the children it waits for, in order.
\<close>

datatype event = EvPipe nat | EvFork nat | EvClose nat | EvWait nat

text \<open>
  The result of a call: \<open>result\<close> is \<open>None\<close> when the interpreter blocks for ever in
  \<^verbatim>\<open>os.waitpid\<close>; \<open>parent\<close> is the interpreter afterwards; \<open>children\<close> are the
  processes forked, with their process id, their end and their final state.
\<close>

record run =
  result :: "int ctl option"
  parent :: proc
  children :: "(nat \<times> child_end \<times> proc) list"
  trace :: "event list"

text \<open>
  The loop \<^verbatim>\<open>for pid in pids\<close> on the rest of \<open>pids\<close>; \<open>lastpid\<close> is
  \<^verbatim>\<open>pids[-1]\<close>. The second component lists the \<^verbatim>\<open>os.waitpid\<close> calls made.
\<close>

fun wait_loop :: "os \<Rightarrow> (nat \<times> child_end \<times> proc) list \<Rightarrow> nat \<Rightarrow> nat list \<Rightarrow> int
    \<Rightarrow> int option \<times> nat list" where
  "wait_loop w kids lastpid [] last_status = (Some last_status, [])"
| "wait_loop w kids lastpid (pid # rest) last_status =
     (case os_waitpid w kids pid of
        None \<Rightarrow> (None, [pid])
      | Some status \<Rightarrow>
          (let (r, ws) = wait_loop w kids lastpid rest
                           (if pid = lastpid then status else last_status)
           in (r, pid # ws)))"

text \<open>
  The loop \<^verbatim>\<open>for i, st in enumerate(stages)\<close>: the children forked, in the order of
  the stages.
\<close>

definition stage_kids :: "os \<Rightarrow> proc \<Rightarrow> stage list \<Rightarrow> (nat \<times> child_end \<times> proc) list" where
  "stage_kids w p stages =
     map (\<lambda>(i, st). (os_fork w i, stage_child w (forked p) (length stages) i st))
         (enumerate 0 stages)"

definition run_pipeline :: "os \<Rightarrow> proc \<Rightarrow> stage list \<Rightarrow> bool \<Rightarrow> run" where
  "run_pipeline w p stages is_background =
     (let n = length stages in
      if n = 1 \<and> is_builtin (argv (stages ! 0)) then
        (let av = argv (stages ! 0); fin = infile (stages ! 0); fout = outfile (stages ! 0) in
         if fin = None \<and> fout = None then
           (case run_builtin w p av of
              (r, p2) \<Rightarrow> \<lparr>result = Some r, parent = p2, children = [], trace = []\<rparr>)
         else
           (let pid = os_fork w 0;
                kids = [(pid, builtin_child w (forked p) av fin fout)] in
            if is_background then
              \<lparr>result = Some (Return 0), parent = p, children = kids, trace = [EvFork pid]\<rparr>
            else
              \<lparr>result = map_option (\<lambda>status. Return (status_to_exitcode status)) (os_waitpid w kids pid),
               parent = p, children = kids, trace = [EvFork pid, EvWait pid]\<rparr>))
      else
        (let kids = stage_kids w p stages;
             pids = map fst kids;
             tr = map EvPipe [0..<n - 1] @ map EvFork pids @ map EvClose [0..<n - 1] in
         if is_background then
           \<lparr>result = Some (Return 0), parent = p, children = kids, trace = tr\<rparr>
         else
           (let (last_status, ws) = wait_loop w kids (last pids) pids 0 in
            \<lparr>result = map_option (\<lambda>status. Return (status_to_exitcode status)) last_status,
             parent = p, children = kids, trace = tr @ map EvWait ws\<rparr>)))"

subsection \<open>The dispatch in main\<close>

text \<open>\<^verbatim>\<open>str(rc)\<close> of an integer.\<close>

fun str_nat :: "nat \<Rightarrow> string" where
  "str_nat n = (if n < 10 then [char_of (48 + n)] else str_nat (n div 10) @ [char_of (48 + n mod 10)])"

definition str_int :: "int \<Rightarrow> string" where
  "str_int i = (if i < 0 then ''-'' @ str_nat (nat (- i)) else str_nat (nat i))"

definition report :: "proc \<Rightarrow> int \<Rightarrow> proc" where
  "report p rc = eprint p (''Program terminated with exit code '' @ str_int rc @ ''.'')"

text \<open>
  The body of the loop of \<^verbatim>\<open>main\<close> once the line is parsed into a list of stages
  that is not empty.
\<close>

definition main_dispatch :: "os \<Rightarrow> proc \<Rightarrow> stage list \<Rightarrow> bool \<Rightarrow> run" where
  "main_dispatch w p stages is_bg =
     (if length stages = 1 \<and> is_builtin (argv (stages ! 0))
         \<and> infile (stages ! 0) = None \<and> outfile (stages ! 0) = None then
        (case run_builtin w p (argv (stages ! 0)) of
           (Return rc, p2) \<Rightarrow>
             \<lparr>result = Some (Return rc), parent = (if rc \<noteq> 0 then report p2 rc else p2),
              children = [], trace = []\<rparr>
         | (Exit code, p2) \<Rightarrow>
             \<lparr>result = Some (Exit code), parent = p2, children = [], trace = []\<rparr>)
      else
        (let r = run_pipeline w p stages is_bg in
         case result r of
           Some (Return rc) \<Rightarrow>
             (if \<not> is_bg \<and> rc \<noteq> 0 then r\<lparr>parent := report (parent r) rc\<rparr> else r)
         | _ \<Rightarrow> r))"

text \<open>
  A child that left \<^verbatim>\<open>run_pipeline\<close> by an exception is in the \<^verbatim>\<open>try\<close> of
  \<^verbatim>\<open>main\<close>: the handler \<^verbatim>\<open>except Exception as ex\<close> writes \<open>error:\<close> and the text on
  descriptor 2, and the next pass of the loop starts with \<^verbatim>\<open>print_prompt\<close>.
\<close>

definition prompt_string :: "os \<Rightarrow> string" where
  "prompt_string w = (case os_environ w ''PS1'' of None \<Rightarrow> ''$ '' | Some v \<Rightarrow> v)"

definition print_prompt :: "os \<Rightarrow> proc \<Rightarrow> proc" where
  "print_prompt w p =
     (let ps1 = prompt_string w
      in if ps1 \<noteq> [] then p\<lparr>writes := writes p @ [(1, ps1)]\<rparr> else p)"

definition back_in_main :: "os \<Rightarrow> proc \<Rightarrow> string \<Rightarrow> proc" where
  "back_in_main w p msg = print_prompt w (eprint p (''error: '' @ msg))"

section \<open>Helpers and an example world\<close>


text \<open>A small world and an interpreter, for the examples.\<close>

definition demo_os :: os where
  "demo_os =
     \<lparr>os_environ = (\<lambda>k. if k = ''PATH'' then Some ''/usr/bin::/bin/'' else None),
      os_stat = (\<lambda>f. f \<in> set [''/bin/true'', ''/bin/false'', ''./run'', ''/tmp'', ''/bin/data'']),
      os_access_x = (\<lambda>f. f \<in> set [''/bin/true'', ''/bin/false'', ''./run'', ''/tmp'']),
      os_open_rd = (\<lambda>f. if f = ''in.txt'' then None else Some ''[Errno 2] No such file or directory''),
      os_open_wr = (\<lambda>f. if f = ''/out.txt'' then Some ''[Errno 13] Permission denied'' else None),
      os_chdir = (\<lambda>d f. if f = ''/tmp'' then Inr ''/tmp'' else Inl ''[Errno 2] No such file or directory''),
      os_execve = (\<lambda>f av. if f = ''./run'' then Some ''[Errno 8] Exec format error'' else None),
      os_int = (\<lambda>s. if s = ''3'' then Some 3 else None),
      os_fork = (\<lambda>i. 100 + i),
      os_finished = [(101, 0), (100, 256)]\<rparr>"

text \<open>The same world with the directory \<open>/bin/\<close> known to \<^verbatim>\<open>os.stat\<close>.\<close>

definition demo_dirs_os :: os where
  "demo_dirs_os =
     demo_os\<lparr>os_stat := (\<lambda>f. f = ''/bin/'' \<or> os_stat demo_os f),
             os_access_x := (\<lambda>f. f = ''/bin/'' \<or> os_access_x demo_os f)\<rparr>"

definition demo_proc :: proc where
  "demo_proc = \<lparr>cwd = ''/home'', fd0 = Inherited, fd1 = Inherited, writes = []\<rparr>"

text \<open>The \<^verbatim>\<open>os.waitpid\<close> calls in a trace, in order.\<close>

fun waits :: "event list \<Rightarrow> nat list" where
  "waits [] = []"
| "waits (EvWait pid # es) = pid # waits es"
| "waits (e # es) = waits es"

text \<open>
  A pipeline that the interpreter runs in its own process: one stage, a builtin, no
  redirection.
\<close>

abbreviation (input) direct_builtin :: "stage list \<Rightarrow> bool" where
  "direct_builtin stages \<equiv>
     length stages = 1 \<and> is_builtin (argv (stages ! 0)) \<and>
     infile (stages ! 0) = None \<and> outfile (stages ! 0) = None"

text \<open>
  A list of tokens that consists of redirections only: operators \<open><\<close> or \<open>>\<close>, each
  followed by a token.
\<close>

fun redir_only :: "string list \<Rightarrow> bool" where
  "redir_only [] = True"
| "redir_only [t] = False"
| "redir_only (t # x # rest) = ((t = ''<'' \<or> t = ''>'') \<and> redir_only rest)"

subsection \<open>Parts of the token pattern\<close>

text \<open>
  What \<^verbatim>\<open>One (Lit q)\<close> matches, the characters of the class of a bare token, and the
  matches of the group at a position where the white space has been skipped.
\<close>

fun after_lit :: "char \<Rightarrow> string \<Rightarrow> string list" where
  "after_lit q [] = []"
| "after_lit q (c # cs) = (if c = q then [cs] else [])"

definition bare_char :: "char \<Rightarrow> bool" where
  "bare_char c \<longleftrightarrow> c \<notin> set [CHR 0x20, CHR 0x09, CHR 0x0D, CHR 0x0A, sq, dq]"

definition group_at :: "string \<Rightarrow> (string \<times> string) list" where
  "group_at r1 = map (\<lambda>r2. (take (length r1 - length r2) r1, r2)) (rx_match token_group r1)"

subsection \<open>The tokenizer in the words of the specification\<close>

text \<open>
  This definition follows the specification, not the source: skip white space; then a
  quoted run gives its content without the two delimiters, a quote with no partner gives
  a token of one character, and anything else starts a maximal run of characters that
  are neither white space nor quotes. There is no escape character.
\<close>

definition word_char :: "char \<Rightarrow> bool" where
  "word_char c \<longleftrightarrow> \<not> isspace c \<and> c \<noteq> sq \<and> c \<noteq> dq"

function tokenize_spec :: "string \<Rightarrow> string list" where
  "tokenize_spec s =
     (case dropWhile isspace s of
        [] \<Rightarrow> []
      | c # cs \<Rightarrow>
          if c = sq \<or> c = dq then
            (if c \<in> set cs
             then takeWhile (\<lambda>x. x \<noteq> c) cs # tokenize_spec (tl (dropWhile (\<lambda>x. x \<noteq> c) cs))
             else [c] # tokenize_spec cs)
          else (c # takeWhile word_char cs) # tokenize_spec (dropWhile word_char cs))"
  by pat_completeness auto
termination
proof (relation "measure length", goal_cases)
  case 1
  then show ?case by simp
next
  case (2 s c cs)
  have "length (tl (dropWhile (\<lambda>x. x \<noteq> c) cs)) \<le> length cs"
    using length_dropWhile_le [of "\<lambda>x. x \<noteq> c" cs] by simp
  moreover have "length (c # cs) \<le> length s"
    using 2(1) length_dropWhile_le [of isspace s] by simp
  ultimately show ?case by simp
next
  case (3 s c cs)
  have "length (c # cs) \<le> length s"
    using 3(1) length_dropWhile_le [of isspace s] by simp
  then show ?case by simp
next
  case (4 s c cs)
  have "length (dropWhile word_char cs) \<le> length cs"
    by (rule length_dropWhile_le)
  moreover have "length (c # cs) \<le> length s"
    using 4(1) length_dropWhile_le [of isspace s] by simp
  ultimately show ?case by simp
qed

declare tokenize_spec.simps [simp del]

section \<open>Properties\<close>

subsection \<open>The redirection parser\<close>

lemma redir_loop_acc:
  "redir_loop av out fin fout =
     (case redir_loop av [] None None of
        (a, i, outp) \<Rightarrow> (out @ a, (case i of None \<Rightarrow> fin | Some g \<Rightarrow> Some g),
                         (case outp of None \<Rightarrow> fout | Some g \<Rightarrow> Some g)))"
proof (induction av arbitrary: out fin fout rule: length_induct)
  case (1 av)
  show ?case
  proof (cases av)
    case Nil
    then show ?thesis by simp
  next
    case (Cons t rest)
    have short: "length rest < length av" "length (tl rest) < length av"
      using Cons by (cases rest; simp)+
    note ih = "1.IH" [rule_format]
    show ?thesis
    proof (cases "(t = ''<'' \<or> t = ''>'') \<and> rest \<noteq> []")
      case True
      then show ?thesis
        using ih [OF short(2), of out "Some (hd rest)" fout]
              ih [OF short(2), of "[]" "Some (hd rest)" None]
              ih [OF short(2), of out fin "Some (hd rest)"]
              ih [OF short(2), of "[]" None "Some (hd rest)"]
        by (auto simp: Cons split: prod.splits option.splits)
    next
      case False
      then show ?thesis
        using ih [OF short(1), of "out @ [t]" fin fout] ih [OF short(1), of "[t]" None None]
        by (auto simp: Cons split: prod.splits option.splits)
    qed
  qed
qed

lemma redir_subseq: "subseq (fst (redir_loop av [] None None)) av"
proof (induction av rule: length_induct)
  case (1 av)
  show ?case
  proof (cases av)
    case Nil
    then show ?thesis by simp
  next
    case (Cons t rest)
    have short: "length rest < length av" "length (tl rest) < length av"
      using Cons by (cases rest; simp)+
    note ih = "1.IH" [rule_format]
    show ?thesis
    proof (cases "(t = ''<'' \<or> t = ''>'') \<and> rest \<noteq> []")
      case True
      then obtain f rest2 where r: "rest = f # rest2" by (cases rest) auto
      have "subseq (fst (redir_loop rest2 [] None None)) (t # f # rest2)"
        using ih [OF short(2)] r by (auto intro: list_emb_Cons)
      then show ?thesis using True r Cons
        by (auto simp: redir_loop_acc [of rest2 "[]" "Some f" None]
             redir_loop_acc [of rest2 "[]" None "Some f"] split: prod.splits)
    next
      case False
      then show ?thesis
        using ih [OF short(1)]
        by (auto simp: Cons redir_loop_acc [of rest "[t]" None None] split: prod.splits)
    qed
  qed
qed

text \<open>
  Claim C8. \<^verbatim>\<open>parse_redirections\<close> scans the argument vector from the left. At a
  \<open><\<close> followed by a token it drops both and records the follower as the input
  path; a path recorded further right replaces it, so the last one wins. The same holds
  for \<open>>\<close> and the output path. Any other token, and an operator that is the last
  token of the vector, goes to the cleaned vector; the cleaned vector keeps the order of
  the tokens (it is a subsequence of the argument vector).
\<close>

theorem parse_redirections_scan:
  "parse_redirections [] = ([], None, None) \<and>
   parse_redirections (''<'' # f # rest) =
     (case parse_redirections rest of
        (a, i, outp) \<Rightarrow> (a, (case i of None \<Rightarrow> Some f | Some g \<Rightarrow> Some g), outp)) \<and>
   parse_redirections (''>'' # f # rest) =
     (case parse_redirections rest of
        (a, i, outp) \<Rightarrow> (a, i, (case outp of None \<Rightarrow> Some f | Some g \<Rightarrow> Some g))) \<and>
   ((t \<noteq> ''<'' \<and> t \<noteq> ''>'') \<or> rest = [] \<longrightarrow>
      parse_redirections (t # rest) =
        (case parse_redirections rest of (a, i, outp) \<Rightarrow> (t # a, i, outp))) \<and>
   subseq (fst (parse_redirections av)) av"
proof -
  have a: "parse_redirections [] = ([], None, None)"
    by (simp add: parse_redirections_def)
  have b: "parse_redirections (''<'' # f # rest) =
     (case parse_redirections rest of
        (a, i, outp) \<Rightarrow> (a, (case i of None \<Rightarrow> Some f | Some g \<Rightarrow> Some g), outp))"
    by (simp add: parse_redirections_def redir_loop_acc [of rest "[]" "Some f" None]
          split: prod.splits option.splits)
  have c: "parse_redirections (''>'' # f # rest) =
     (case parse_redirections rest of
        (a, i, outp) \<Rightarrow> (a, i, (case outp of None \<Rightarrow> Some f | Some g \<Rightarrow> Some g)))"
    by (simp add: parse_redirections_def redir_loop_acc [of rest "[]" None "Some f"]
          split: prod.splits option.splits)
  have d: "(t \<noteq> ''<'' \<and> t \<noteq> ''>'') \<or> rest = [] \<longrightarrow>
      parse_redirections (t # rest) =
        (case parse_redirections rest of (a, i, outp) \<Rightarrow> (t # a, i, outp))"
    by (auto simp: parse_redirections_def redir_loop_acc [of rest "[t]" None None]
          split: prod.splits option.splits)
  have e: "subseq (fst (parse_redirections av)) av"
    by (simp add: parse_redirections_def redir_subseq)
  from a b c d e show ?thesis by blast
qed

theorem parse_redirections_scan_witness:
  "(''ls'' \<noteq> ''<'' \<and> ''ls'' \<noteq> ''>'') \<and>
   parse_redirections [''ls'', ''<'', ''a'', ''-l'', ''>'', ''b'', ''<'', ''c'', ''>''] =
     ([''ls'', ''-l'', ''>''], Some ''c'', Some ''b'') \<and>
   parse_redirections (''ls'' # [''<'', ''a'', ''>'']) =
        (case parse_redirections [''<'', ''a'', ''>''] of (a, i, outp) \<Rightarrow> (''ls'' # a, i, outp))"
  using parse_redirections_scan [of "''a''" "[''>'']" "''ls''" "[]"]
        parse_redirections_scan [of "''a''" "[''<'', ''a'', ''>'']" "''ls''" "[]"]
  by (simp add: parse_redirections_def)

subsection \<open>The command resolver\<close>








subsection \<open>The builtin cd\<close>



subsection \<open>Failures in a child\<close>

lemma setup_redirection_ok:
  "\<forall>f. fin = Some f \<longrightarrow> os_open_rd w f = None \<Longrightarrow>
   \<forall>g. fout = Some g \<longrightarrow> os_open_wr w g = None \<Longrightarrow>
   fst (setup_redirection w p fin fout) = True \<and>
   writes (snd (setup_redirection w p fin fout)) = writes p"
  by (auto simp: setup_redirection_def split: option.splits)

text \<open>
  The child of a stage, case by case. When opening the input file, or else the output
  file, fails, the child writes the name and the error on descriptor 2 and leaves with
  status 1 (so does the child that runs a builtin). When the redirections are set up and
  the program name does not resolve, it writes \<open>name: command not found\<close> on descriptor
  2 and leaves with status 127. When the name resolves there are three cases:
  \<^verbatim>\<open>os.execve\<close> raises \<^verbatim>\<open>OSError\<close>, and the child writes the name and the error on
  descriptor 2 and leaves with status 126; it succeeds; or it raises \<^verbatim>\<open>ValueError\<close>,
  and the child has written nothing and has not left when the exception leaves
  \<^verbatim>\<open>exec_program\<close>.
\<close>

lemma child_cases:
  "((\<exists>f. infile st = Some f \<and> os_open_rd w f = Some e \<and> name = f) \<or>
    ((\<forall>f. infile st = Some f \<longrightarrow> os_open_rd w f = None) \<and>
     outfile st = Some name \<and> os_open_wr w name = Some e) \<longrightarrow>
      fst (stage_child w p n i st) = Exited 1 \<and>
      writes (snd (stage_child w p n i st)) = writes p @ [(2, name @ '': '' @ e @ [CHR 0x0A])] \<and>
      fst (builtin_child w p (argv st) (infile st) (outfile st)) = Exited 1 \<and>
      writes (snd (builtin_child w p (argv st) (infile st) (outfile st))) =
        writes p @ [(2, name @ '': '' @ e @ [CHR 0x0A])]) \<and>
   ((\<forall>f. infile st = Some f \<longrightarrow> os_open_rd w f = None) \<and>
    (\<forall>g. outfile st = Some g \<longrightarrow> os_open_wr w g = None) \<and> argv st = prog # args \<longrightarrow>
      (resolve_command w prog = None \<longrightarrow>
         fst (stage_child w p n i st) = Exited 127 \<and>
         writes (snd (stage_child w p n i st)) =
           writes p @ [(2, prog @ '': command not found'' @ [CHR 0x0A])]) \<and>
      (resolve_command w prog = Some path \<and> py_execve w path (argv st) = OSError e \<longrightarrow>
         fst (stage_child w p n i st) = Exited 126 \<and>
         writes (snd (stage_child w p n i st)) = writes p @ [(2, prog @ '': '' @ e @ [CHR 0x0A])]) \<and>
      (resolve_command w prog = Some path \<and> py_execve w path (argv st) = Image \<longrightarrow>
         fst (stage_child w p n i st) = Replaced path (argv st) \<and>
         writes (snd (stage_child w p n i st)) = writes p) \<and>
      (resolve_command w prog = Some path \<and> py_execve w path (argv st) = ValueError msg \<longrightarrow>
         fst (stage_child w p n i st) = Escaped msg \<and>
         writes (snd (stage_child w p n i st)) = writes p))"
proof -
  let ?p2 = "(if int i < int n - 1 then (if i > 0 then p\<lparr>fd0 := PipeRead (i - 1)\<rparr> else p)\<lparr>fd1 := PipeWrite i\<rparr>
             else (if i > 0 then p\<lparr>fd0 := PipeRead (i - 1)\<rparr> else p))"
  have w2: "writes ?p2 = writes p" by simp
  have sc: "stage_child w p n i st =
      (case setup_redirection w ?p2 (infile st) (outfile st) of
         (ok, p3) \<Rightarrow> if \<not> ok then (Exited 1, p3) else exec_program w p3 (argv st))"
    by (simp add: stage_child_def Let_def)
  have bc: "builtin_child w p (argv st) (infile st) (outfile st) =
      (case setup_redirection w p (infile st) (outfile st) of
         (ok, p1) \<Rightarrow> if \<not> ok then (Exited 1, p1)
           else (case run_builtin w p1 (argv st) of
                 (Return code, p2) \<Rightarrow> (Exited code, p2)
               | (Exit code, p2) \<Rightarrow> (Exited (sys_exit_code code), p2)))"
    by (simp add: builtin_child_def)
  have A: "fst (stage_child w p n i st) = Exited 1 \<and>
      writes (snd (stage_child w p n i st)) = writes p @ [(2, name @ '': '' @ e @ [CHR 0x0A])] \<and>
      fst (builtin_child w p (argv st) (infile st) (outfile st)) = Exited 1 \<and>
      writes (snd (builtin_child w p (argv st) (infile st) (outfile st))) =
        writes p @ [(2, name @ '': '' @ e @ [CHR 0x0A])]"
    if h: "(\<exists>f. infile st = Some f \<and> os_open_rd w f = Some e \<and> name = f) \<or>
       ((\<forall>f. infile st = Some f \<longrightarrow> os_open_rd w f = None) \<and>
        outfile st = Some name \<and> os_open_wr w name = Some e)"
  proof -
    have "fst (setup_redirection w q (infile st) (outfile st)) = False \<and>
          writes (snd (setup_redirection w q (infile st) (outfile st))) =
            writes q @ [(2, name @ '': '' @ e @ [CHR 0x0A])]" for q
      using h by (auto simp: setup_redirection_def eprint_def split: option.splits)
    from this [of ?p2] this [of p] show ?thesis
      unfolding sc bc using w2 by (auto split: prod.splits)
  qed
  have B: "(resolve_command w prog = None \<longrightarrow>
         fst (stage_child w p n i st) = Exited 127 \<and>
         writes (snd (stage_child w p n i st)) =
           writes p @ [(2, prog @ '': command not found'' @ [CHR 0x0A])]) \<and>
      (resolve_command w prog = Some path \<and> py_execve w path (argv st) = OSError e \<longrightarrow>
         fst (stage_child w p n i st) = Exited 126 \<and>
         writes (snd (stage_child w p n i st)) = writes p @ [(2, prog @ '': '' @ e @ [CHR 0x0A])]) \<and>
      (resolve_command w prog = Some path \<and> py_execve w path (argv st) = Image \<longrightarrow>
         fst (stage_child w p n i st) = Replaced path (argv st) \<and>
         writes (snd (stage_child w p n i st)) = writes p) \<and>
      (resolve_command w prog = Some path \<and> py_execve w path (argv st) = ValueError msg \<longrightarrow>
         fst (stage_child w p n i st) = Escaped msg \<and>
         writes (snd (stage_child w p n i st)) = writes p)"
    if h: "\<forall>f. infile st = Some f \<longrightarrow> os_open_rd w f = None"
          "\<forall>g. outfile st = Some g \<longrightarrow> os_open_wr w g = None" "argv st = prog # args"
  proof -
    from setup_redirection_ok [OF h(1,2), of ?p2] w2
    obtain p3 where s: "setup_redirection w ?p2 (infile st) (outfile st) = (True, p3)"
      and w3: "writes p3 = writes p"
      by (cases "setup_redirection w ?p2 (infile st) (outfile st)") auto
    have "stage_child w p n i st = exec_program w p3 (argv st)"
      unfolding sc s by simp
    then show ?thesis using h(3) w3
      by (auto simp: exec_program_def eprint_def)
  qed
  from A B show ?thesis by blast
qed

lemma exec_program_empty_name:
  "resolve_command w [] = Some path \<Longrightarrow>
   exec_program w p ([] # args) = (Escaped ''execve: argv first element cannot be empty'', p)"
  by (simp add: exec_program_def py_execve_def)

text \<open>
  Claim C3 fails on the code for the line that consists of two single quotes. The
  tokenizer gives one token, the empty string, so the stage has the argument vector
  \<open>['''']\<close> and \<^verbatim>\<open>run_pipeline\<close> forks a child for it. \<^verbatim>\<open>resolve_command\<close> joins
  every directory of \<^verbatim>\<open>PATH\<close> with the empty name and returns the first directory
  that \<^verbatim>\<open>is_executable\<close> accepts, here \<open>/bin/\<close>. \<^verbatim>\<open>os.execve\<close> refuses the empty first
  argument with \<^verbatim>\<open>ValueError\<close>, which the handler \<^verbatim>\<open>except OSError\<close> of
  \<^verbatim>\<open>exec_program\<close> does not catch. So the resolution succeeds, \<^verbatim>\<open>execve\<close> fails, and
  the child does not leave with status 126, nor with any status: the exception takes it
  out of \<^verbatim>\<open>run_pipeline\<close>, past the \<^verbatim>\<open>os._exit(127)\<close> after the call of
  \<^verbatim>\<open>exec_program\<close>, and back in \<^verbatim>\<open>main\<close> the child writes the text of the exception
  on descriptor 2 and then the prompt on descriptor 1.
\<close>

theorem child_survives_execve_error:
  "parse_line_into_stages [sq, sq] = ([\<lparr>argv = [[]], infile = None, outfile = None\<rparr>], False) \<and>
   \<not> is_builtin [[]] \<and>
   resolve_command demo_dirs_os [] = Some ''/bin/'' \<and>
   py_execve demo_dirs_os ''/bin/'' [[]] = ValueError ''execve: argv first element cannot be empty'' \<and>
   exec_program demo_dirs_os (forked demo_proc) [[]] =
     (Escaped ''execve: argv first element cannot be empty'', forked demo_proc) \<and>
   children (run_pipeline demo_dirs_os demo_proc
               [\<lparr>argv = [[]], infile = None, outfile = None\<rparr>] False) =
     [(100, Escaped ''execve: argv first element cannot be empty'', forked demo_proc)] \<and>
   writes (back_in_main demo_dirs_os (forked demo_proc)
             ''execve: argv first element cannot be empty'') =
     [(2, ''error: execve: argv first element cannot be empty'' @ [CHR 0x0A]), (1, ''$ '')]"
proof -
  have a: "parse_line_into_stages [sq, sq] =
      ([\<lparr>argv = [[]], infile = None, outfile = None\<rparr>], False)"
    by code_simp
  have b: "\<not> is_builtin [[]]" by (simp add: is_builtin_def)
  have c: "resolve_command demo_dirs_os [] = Some ''/bin/''"
    by (simp add: resolve_command_def demo_dirs_os_def demo_os_def is_executable_def
          os_path_join_def)
  have d: "py_execve demo_dirs_os ''/bin/'' [[]] =
      ValueError ''execve: argv first element cannot be empty''"
    by (simp add: py_execve_def)
  have e: "exec_program demo_dirs_os (forked demo_proc) [[]] =
      (Escaped ''execve: argv first element cannot be empty'', forked demo_proc)"
    by (simp add: exec_program_def c d)
  have f: "children (run_pipeline demo_dirs_os demo_proc
               [\<lparr>argv = [[]], infile = None, outfile = None\<rparr>] False) =
     [(100, Escaped ''execve: argv first element cannot be empty'', forked demo_proc)]"
    by (simp add: run_pipeline_def b stage_kids_def stage_child_def setup_redirection_def e
          Let_def split: prod.splits)
       (simp add: demo_dirs_os_def demo_os_def)
  have g: "writes (back_in_main demo_dirs_os (forked demo_proc)
             ''execve: argv first element cannot be empty'') =
     [(2, ''error: execve: argv first element cannot be empty'' @ [CHR 0x0A]), (1, ''$ '')]"
    by (simp add: back_in_main_def print_prompt_def prompt_string_def eprint_def forked_def
          demo_dirs_os_def demo_os_def demo_proc_def)
  from a b c d e f g show ?thesis by (intro conjI)
qed

subsection \<open>The pipeline executor\<close>

lemma and_7f: "(s::int) AND 0x7f = s mod 128"
  using take_bit_eq_mask [of 7 s] by (simp add: take_bit_eq_mod mask_eq_exp_minus_1)

lemma wexit: "WEXITSTATUS s = (s div 256) mod 256"
proof -
  have "drop_bit 8 (s AND 0xff00) = drop_bit 8 s AND drop_bit 8 (0xff00::int)"
    by (simp add: drop_bit_and)
  also have "drop_bit 8 (0xff00::int) = 255" by (simp add: drop_bit_eq_div)
  also have "drop_bit 8 s AND 255 = (drop_bit 8 s) mod 256"
    using take_bit_eq_mask [of 8 "drop_bit 8 s"] by (simp add: take_bit_eq_mod mask_eq_exp_minus_1)
  finally show ?thesis by (simp add: WEXITSTATUS_def drop_bit_eq_div)
qed

lemma wifexited: "WIFEXITED s \<longleftrightarrow> s mod 128 = 0"
  by (simp add: WIFEXITED_def and_7f)

lemma wtermsig: "WTERMSIG s = s mod 128"
  by (simp add: WTERMSIG_def and_7f)

lemma wifsignaled: "WIFSIGNALED s \<longleftrightarrow> s mod 128 \<noteq> 0 \<and> s mod 128 \<noteq> 127"
proof -
  have r: "0 \<le> s mod 128" "s mod 128 < 128" by simp_all
  define t where "t = s mod 128"
  have "(drop_bit 1 (signed_char (t + 1)) > 0) \<longleftrightarrow> t \<noteq> 0 \<and> t \<noteq> 127"
    using r unfolding t_def [symmetric]
    by (auto simp: signed_char_def drop_bit_eq_div)
  then show ?thesis by (simp add: WIFSIGNALED_def and_7f t_def)
qed

lemma exit_status_eq: "exit_status c = (c mod 256) * 256"
proof -
  have "c AND 0xff = c mod 256"
    using take_bit_eq_mask [of 8 c] by (simp add: take_bit_eq_mod mask_eq_exp_minus_1)
  then show ?thesis by (simp add: exit_status_def push_bit_eq_mult)
qed

lemma run_pipeline_direct:
  assumes "direct_builtin stages"
  shows "run_pipeline w p stages bg =
     \<lparr>result = Some (fst (run_builtin w p (argv (stages ! 0)))),
      parent = snd (run_builtin w p (argv (stages ! 0))), children = [], trace = []\<rparr>"
  using assms by (simp add: run_pipeline_def Let_def split: prod.splits)

lemma run_pipeline_builtin_redir:
  assumes "length stages = 1" "is_builtin (argv (stages ! 0))"
    "infile (stages ! 0) \<noteq> None \<or> outfile (stages ! 0) \<noteq> None"
  shows "run_pipeline w p stages bg =
     (let kids = [(os_fork w 0, builtin_child w (forked p) (argv (stages ! 0))
                                  (infile (stages ! 0)) (outfile (stages ! 0)))]
      in if bg then \<lparr>result = Some (Return 0), parent = p, children = kids,
                      trace = [EvFork (os_fork w 0)]\<rparr>
         else \<lparr>result = map_option (\<lambda>status. Return (status_to_exitcode status))
                          (os_waitpid w kids (os_fork w 0)),
               parent = p, children = kids, trace = [EvFork (os_fork w 0), EvWait (os_fork w 0)]\<rparr>)"
  using assms by (auto simp: run_pipeline_def Let_def)

lemma run_pipeline_general:
  assumes "\<not> (length stages = 1 \<and> is_builtin (argv (stages ! 0)))"
  shows "run_pipeline w p stages bg =
     (let kids = stage_kids w p stages; pids = map fst kids;
          tr = map EvPipe [0..<length stages - 1] @ map EvFork pids
               @ map EvClose [0..<length stages - 1]
      in if bg then \<lparr>result = Some (Return 0), parent = p, children = kids, trace = tr\<rparr>
         else \<lparr>result = map_option (\<lambda>status. Return (status_to_exitcode status))
                          (fst (wait_loop w kids (last pids) pids 0)),
               parent = p, children = kids,
               trace = tr @ map EvWait (snd (wait_loop w kids (last pids) pids 0))\<rparr>)"
  using assms by (auto simp: run_pipeline_def Let_def split: prod.splits)

lemma stage_kids_length: "length (stage_kids w p stages) = length stages"
  by (simp add: stage_kids_def)

lemma stage_kids_nth:
  "i < length stages \<Longrightarrow>
   stage_kids w p stages ! i = (os_fork w i, stage_child w (forked p) (length stages) i (stages ! i))"
  by (simp add: stage_kids_def nth_enumerate_eq)

lemma waits_append: "waits (xs @ ys) = waits xs @ waits ys"
  by (induction xs rule: waits.induct) simp_all

lemma waits_EvPipe: "waits (map EvPipe ps) = []"
  by (induction ps) simp_all

lemma waits_EvFork_comp: "waits (map (EvFork \<circ> f) xs) = []"
  by (induction xs) simp_all

lemma waits_EvClose: "waits (map EvClose ps) = []"
  by (induction ps) simp_all

lemma wait_loop_all:
  "\<forall>pid\<in>set pids. os_waitpid w kids pid \<noteq> None \<Longrightarrow>
   wait_loop w kids lp pids s0 =
     (Some (if lp \<in> set pids then the (os_waitpid w kids lp) else s0), pids)"
proof (induction pids arbitrary: s0)
  case Nil
  then show ?case by simp
next
  case (Cons pid rest)
  then obtain st where st: "os_waitpid w kids pid = Some st" by auto
  have ih: "wait_loop w kids lp rest s1 =
     (Some (if lp \<in> set rest then the (os_waitpid w kids lp) else s1), rest)" for s1
    using Cons.prems by (intro Cons.IH) simp
  show ?case by (auto simp: st ih)
qed


lemma os_waitpid_kid:
  "distinct (map fst kids) \<Longrightarrow> (pid, e, q) \<in> set kids \<Longrightarrow>
   os_waitpid w kids pid =
     (case e of Exited c \<Rightarrow> Some (exit_status c)
      | Replaced path av \<Rightarrow> map_of (os_finished w) pid
      | Escaped msg \<Rightarrow> map_of (os_finished w) pid)"
  by (simp add: os_waitpid_def split: child_end.splits)

text \<open>
  Claim C5, amended. With the background flag set, a pipeline that is not a single
  builtin without redirection makes \<^verbatim>\<open>run_pipeline\<close> fork one child for each stage and
  return 0 without any \<^verbatim>\<open>os.waitpid\<close>; the interpreter itself is unchanged. A single
  builtin without redirection is run in the interpreter before the flag is looked at, and
  the call returns what the builtin returns (or ends the interpreter, for \<open>exit\<close>).
\<close>

theorem run_pipeline_background:
  "(\<not> direct_builtin stages \<longrightarrow>
      result (run_pipeline w p stages True) = Some (Return 0) \<and>
      waits (trace (run_pipeline w p stages True)) = [] \<and>
      parent (run_pipeline w p stages True) = p \<and>
      length (children (run_pipeline w p stages True)) = length stages) \<and>
   (direct_builtin stages \<longrightarrow>
      run_pipeline w p stages True =
        \<lparr>result = Some (fst (run_builtin w p (argv (stages ! 0)))),
         parent = snd (run_builtin w p (argv (stages ! 0))), children = [], trace = []\<rparr>)"
proof -
  have a: "result (run_pipeline w p stages True) = Some (Return 0) \<and>
      waits (trace (run_pipeline w p stages True)) = [] \<and>
      parent (run_pipeline w p stages True) = p \<and>
      length (children (run_pipeline w p stages True)) = length stages"
    if h: "\<not> direct_builtin stages"
  proof (cases "length stages = 1 \<and> is_builtin (argv (stages ! 0))")
    case True
    with h have "infile (stages ! 0) \<noteq> None \<or> outfile (stages ! 0) \<noteq> None" by auto
    with True show ?thesis
      by (simp add: run_pipeline_builtin_redir [of stages w p True])
  next
    case False
    then show ?thesis
      by (simp add: run_pipeline_general [of stages w p True] Let_def stage_kids_length
            waits_append waits_EvPipe waits_EvFork_comp waits_EvClose)
  qed
  show ?thesis using a run_pipeline_direct [of stages w p True] by blast
qed

theorem run_pipeline_background_counterexample:
  "result (run_pipeline demo_os demo_proc
      [\<lparr>argv = [''cd'', ''/nonexistent''], infile = None, outfile = None\<rparr>] True) = Some (Return 1)"
  by (simp add: run_pipeline_def is_builtin_def run_builtin_def demo_os_def demo_proc_def)

theorem run_pipeline_background_witness:
  "result (run_pipeline demo_os demo_proc
      [\<lparr>argv = [''false''], infile = None, outfile = None\<rparr>,
       \<lparr>argv = [''true''], infile = None, outfile = None\<rparr>] True) = Some (Return 0) \<and>
   waits (trace (run_pipeline demo_os demo_proc
      [\<lparr>argv = [''false''], infile = None, outfile = None\<rparr>,
       \<lparr>argv = [''true''], infile = None, outfile = None\<rparr>] True)) = [] \<and>
   result (run_pipeline demo_os demo_proc
      [\<lparr>argv = [''cd'', ''/nonexistent''], infile = None, outfile = Some ''f''\<rparr>] True) = Some (Return 0)"
proof -
  let ?s = "[\<lparr>argv = [''false''], infile = None, outfile = None\<rparr>,
       \<lparr>argv = [''true''], infile = None, outfile = None\<rparr>]"
  let ?c = "[\<lparr>argv = [''cd'', ''/nonexistent''], infile = None, outfile = Some ''f''\<rparr>]"
  have 1: "\<not> direct_builtin ?s" by simp
  have 2: "\<not> direct_builtin ?c" by simp
  note a = run_pipeline_background [of ?s demo_os demo_proc, THEN conjunct1, THEN mp, OF 1]
  note b = run_pipeline_background [of ?c demo_os demo_proc, THEN conjunct1, THEN mp, OF 2]
  from a b show ?thesis by blast
qed

text \<open>
  The children, and so the whole call, do not look at \<open>os_finished\<close> except through
  \<^verbatim>\<open>os.waitpid\<close>.
\<close>

lemma is_executable_fin [simp]: "is_executable (w\<lparr>os_finished := fin\<rparr>) f = is_executable w f"
  by (simp add: is_executable_def)

lemma resolve_loop_fin [simp]: "resolve_loop (w\<lparr>os_finished := fin\<rparr>) prog ds = resolve_loop w prog ds"
  by (induction ds) (simp_all add: Let_def)

lemma resolve_command_fin [simp]: "resolve_command (w\<lparr>os_finished := fin\<rparr>) prog = resolve_command w prog"
  by (auto simp: resolve_command_def Let_def split: option.splits sum.splits prod.splits ctl.splits)

lemma run_builtin_fin [simp]: "run_builtin (w\<lparr>os_finished := fin\<rparr>) p av = run_builtin w p av"
  by (auto simp: run_builtin_def Let_def split: option.splits sum.splits prod.splits ctl.splits)

lemma setup_redirection_fin [simp]:
  "setup_redirection (w\<lparr>os_finished := fin\<rparr>) p a b = setup_redirection w p a b"
  by (auto simp: setup_redirection_def Let_def split: option.splits sum.splits prod.splits ctl.splits)

lemma py_execve_fin [simp]: "py_execve (w\<lparr>os_finished := fin\<rparr>) path av = py_execve w path av"
  by (simp add: py_execve_def split: list.splits)

lemma exec_program_fin [simp]: "exec_program (w\<lparr>os_finished := fin\<rparr>) p av = exec_program w p av"
  by (auto simp: exec_program_def Let_def split: option.splits sum.splits prod.splits ctl.splits)

lemma stage_child_fin [simp]: "stage_child (w\<lparr>os_finished := fin\<rparr>) p n i st = stage_child w p n i st"
  by (auto simp: stage_child_def Let_def split: option.splits sum.splits prod.splits ctl.splits)

lemma builtin_child_fin [simp]:
  "builtin_child (w\<lparr>os_finished := fin\<rparr>) p av a b = builtin_child w p av a b"
  by (auto simp: builtin_child_def Let_def split: option.splits sum.splits prod.splits ctl.splits)

lemma stage_kids_fin [simp]: "stage_kids (w\<lparr>os_finished := fin\<rparr>) p stages = stage_kids w p stages"
  by (auto simp: stage_kids_def Let_def split: option.splits sum.splits prod.splits ctl.splits)

lemma os_waitpid_fin:
  "map_of fin = map_of (os_finished w) \<Longrightarrow>
   os_waitpid (w\<lparr>os_finished := fin\<rparr>) kids pid = os_waitpid w kids pid"
  by (auto simp: os_waitpid_def split: option.splits child_end.splits)

lemma wait_loop_fin:
  "map_of fin = map_of (os_finished w) \<Longrightarrow>
   wait_loop (w\<lparr>os_finished := fin\<rparr>) kids lp pids s0 = wait_loop w kids lp pids s0"
  by (induction pids arbitrary: s0) (auto simp: os_waitpid_fin split: option.splits prod.splits)

lemma run_pipeline_fin:
  assumes "map_of fin = map_of (os_finished w)"
  shows "run_pipeline (w\<lparr>os_finished := fin\<rparr>) p stages bg = run_pipeline w p stages bg"
  by (auto simp: run_pipeline_def Let_def os_waitpid_fin [OF assms] wait_loop_fin [OF assms] split: prod.splits)

lemma waits_EvWait_comp: "waits (map (EvWait \<circ> f) xs) = map f xs"
  by (induction xs) simp_all

lemma stage_kids_map:
  "stage_kids w p stages =
     map (\<lambda>i. (os_fork w i, stage_child w (forked p) (length stages) i (stages ! i)))
         [0..<length stages]"
  by (rule nth_equalityI) (simp_all add: stage_kids_length stage_kids_nth)

lemma stage_kids_pids: "map fst (stage_kids w p stages) = map (os_fork w) [0..<length stages]"
  by (simp add: stage_kids_map comp_def)

lemma run_builtin_return: "run_builtin w p av = (Return c, q) \<Longrightarrow> c = 0 \<or> c = 1"
  by (auto simp: run_builtin_def Let_def split: if_splits option.splits sum.splits)

lemma sys_exit_code_range: "0 \<le> sys_exit_code c \<and> sys_exit_code c \<le> 255"
proof -
  have "c mod 256 < 256" by simp
  then have "c mod 256 \<le> 255" by linarith
  then show ?thesis by (simp add: sys_exit_code_def)
qed

lemma sys_exit_code_examples:
  "sys_exit_code 3 = 3 \<and> sys_exit_code 300 = 44 \<and> sys_exit_code (- 1) = 255 \<and>
   sys_exit_code (2 ^ 63 - 1) = 255 \<and> sys_exit_code (2 ^ 64) = 255"
  by (simp add: sys_exit_code_def)

lemma builtin_child_code:
  "\<exists>c. fst (builtin_child w p av fin fout) = Exited c \<and> 0 \<le> c \<and> c \<le> 255"
proof -
  obtain ok p1 where s: "setup_redirection w p fin fout = (ok, p1)"
    by (cases "setup_redirection w p fin fout")
  obtain r p2 where rb: "run_builtin w p1 av = (r, p2)"
    by (cases "run_builtin w p1 av")
  show ?thesis
  proof (cases r)
    case (Return c)
    with rb run_builtin_return [of w p1 av c p2] have "c = 0 \<or> c = 1" by simp
    then show ?thesis using s rb Return by (auto simp: builtin_child_def)
  next
    case (Exit c)
    then show ?thesis using s rb sys_exit_code_range [of c] by (auto simp: builtin_child_def)
  qed
qed

lemma status_of_exit: "status_to_exitcode (exit_status c) = c mod 256"
  by (simp add: status_to_exitcode_def wifexited wexit exit_status_eq)

lemma foreground_general:
  assumes ne: "stages \<noteq> []" and g: "\<not> (length stages = 1 \<and> is_builtin (argv (stages ! 0)))"
    and d: "inj_on (os_fork w) {..<length stages}"
    and t: "\<forall>i<length stages.
              (\<exists>c. fst (stage_child w (forked p) (length stages) i (stages ! i)) = Exited c) \<or>
              os_fork w i \<in> fst ` set (os_finished w)"
  shows "\<exists>s. os_waitpid w (stage_kids w p stages) (os_fork w (length stages - 1)) = Some s \<and>
     (case fst (stage_child w (forked p) (length stages) (length stages - 1)
                  (stages ! (length stages - 1))) of
        Exited c \<Rightarrow> s = exit_status c
      | Replaced path av \<Rightarrow> map_of (os_finished w) (os_fork w (length stages - 1)) = Some s
      | Escaped msg \<Rightarrow> map_of (os_finished w) (os_fork w (length stages - 1)) = Some s) \<and>
     run_pipeline w p stages False =
     \<lparr>result = Some (Return (status_to_exitcode s)),
      parent = p, children = stage_kids w p stages,
      trace = map EvPipe [0..<length stages - 1] @ map EvFork (map (os_fork w) [0..<length stages])
              @ map EvClose [0..<length stages - 1]
              @ map EvWait (map (os_fork w) [0..<length stages])\<rparr>"
proof -
  let ?n = "length stages"
  let ?kids = "stage_kids w p stages"
  let ?pids = "map fst ?kids"
  let ?child = "\<lambda>i. stage_child w (forked p) ?n i (stages ! i)"
  have n0: "0 < ?n" using ne by simp
  have pids: "?pids = map (os_fork w) [0..<?n]" by (rule stage_kids_pids)
  have dk: "distinct ?pids"
    unfolding pids using d by (simp add: distinct_map atLeast0LessThan)
  have mem: "(os_fork w i, fst (?child i), snd (?child i)) \<in> set ?kids" if "i < ?n" for i
    using that stage_kids_nth [OF that, of w p] nth_mem [of i ?kids]
    by (simp add: stage_kids_length)
  have wk: "os_waitpid w ?kids (os_fork w i) =
      (case fst (?child i) of Exited c \<Rightarrow> Some (exit_status c)
       | Replaced path av \<Rightarrow> map_of (os_finished w) (os_fork w i)
       | Escaped msg \<Rightarrow> map_of (os_finished w) (os_fork w i))" if "i < ?n" for i
    by (rule os_waitpid_kid [OF dk mem [OF that]])
  have some: "os_waitpid w ?kids (os_fork w i) \<noteq> None" if i: "i < ?n" for i
  proof -
    from t i have "(\<exists>c. fst (?child i) = Exited c) \<or> os_fork w i \<in> fst ` set (os_finished w)"
      by simp
    then show ?thesis
      unfolding wk [OF i] by (cases "fst (?child i)") (auto simp: map_of_eq_None_iff)
  qed
  have all: "\<forall>pid\<in>set ?pids. os_waitpid w ?kids pid \<noteq> None"
    unfolding pids using some by auto
  have lp: "last ?pids = os_fork w (?n - 1)"
    unfolding pids using n0 by (simp add: last_map)
  have lin: "last ?pids \<in> set ?pids"
    using n0 by (intro last_in_set) (simp add: pids)
  from some [of "?n - 1"] n0 obtain s where s: "os_waitpid w ?kids (os_fork w (?n - 1)) = Some s"
    by auto
  have cs: "(case fst (?child (?n - 1)) of
        Exited c \<Rightarrow> s = exit_status c
      | Replaced path av \<Rightarrow> map_of (os_finished w) (os_fork w (?n - 1)) = Some s
      | Escaped msg \<Rightarrow> map_of (os_finished w) (os_fork w (?n - 1)) = Some s)"
    using s wk [of "?n - 1"] n0 by (cases "fst (?child (?n - 1))") auto
  have wl: "wait_loop w ?kids (last ?pids) ?pids 0 = (Some s, ?pids)"
    using wait_loop_all [OF all, of "last ?pids" 0] lin s by (simp add: lp)
  have rp: "run_pipeline w p stages False =
     \<lparr>result = Some (Return (status_to_exitcode s)),
      parent = p, children = stage_kids w p stages,
      trace = map EvPipe [0..<length stages - 1] @ map EvFork (map (os_fork w) [0..<length stages])
              @ map EvClose [0..<length stages - 1]
              @ map EvWait (map (os_fork w) [0..<length stages])\<rparr>"
    using g by (simp add: run_pipeline_general [of stages w p False] Let_def wl pids [symmetric])
  from s cs rp show ?thesis by blast
qed

lemma foreground_builtin:
  assumes "length stages = 1" "is_builtin (argv (stages ! 0))"
    "infile (stages ! 0) \<noteq> None \<or> outfile (stages ! 0) \<noteq> None"
  shows "\<exists>c. fst (builtin_child w (forked p) (argv (stages ! 0))
                   (infile (stages ! 0)) (outfile (stages ! 0))) = Exited c \<and>
     0 \<le> c \<and> c \<le> 255 \<and>
     run_pipeline w p stages False =
     \<lparr>result = Some (Return c),
      parent = p,
      children = [(os_fork w 0, builtin_child w (forked p) (argv (stages ! 0))
                                  (infile (stages ! 0)) (outfile (stages ! 0)))],
      trace = [EvFork (os_fork w 0), EvWait (os_fork w 0)]\<rparr>"
proof -
  let ?bc = "builtin_child w (forked p) (argv (stages ! 0)) (infile (stages ! 0)) (outfile (stages ! 0))"
  obtain c where c: "fst ?bc = Exited c" "0 \<le> c" "c \<le> 255"
    using builtin_child_code [of w "forked p" "argv (stages ! 0)" "infile (stages ! 0)"
        "outfile (stages ! 0)"] by blast
  obtain q where q: "?bc = (Exited c, q)"
    using c(1) by (cases ?bc) simp
  have m: "c mod 256 = c" using c(2,3) by simp
  have "run_pipeline w p stages False =
     \<lparr>result = Some (Return c), parent = p, children = [(os_fork w 0, ?bc)],
      trace = [EvFork (os_fork w 0), EvWait (os_fork w 0)]\<rparr>"
    by (simp add: run_pipeline_builtin_redir [OF assms] Let_def q os_waitpid_def status_of_exit m)
  with c show ?thesis by blast
qed

text \<open>
  Claim C2. Take a foreground pipeline of \<open>n\<close> stages that forks children: it has a
  stage and is not a single builtin without redirection. Let the children have process
  ids of their own (\<open>os_fork\<close> is injective on the \<open>n\<close> forks) and let every child
  terminate (it leaves with a code, or \<open>os_finished\<close> lists it). Then:

  \<^item> the child with index \<open>i\<close> is the child of stage \<open>i\<close>, with the process id of the
    fork number \<open>i\<close>; for a single builtin with redirection it is the child that runs
    the builtin;
  \<^item> \<^verbatim>\<open>run_pipeline\<close> calls \<^verbatim>\<open>os.waitpid\<close> once for each child, in the order of the
    stages, and returns;
  \<^item> the value returned is the translation of the status of the child of the last stage,
    stage \<open>n - 1\<close>: its code \<open>mod 256\<close> when it left with a code, the translation of
    the status that \<open>os_finished\<close> has for its process id otherwise;
  \<^item> the order in which the children terminate (the order of \<open>os_finished\<close>) does not
    change the call;
  \<^item> the translation: a status whose low seven bits are 0 (a normal exit) gives bits 8
    to 15, a number from 0 to 255; low seven bits that are a signal number from 1 to 126
    give 128 plus that number; the remaining case gives 1.
\<close>

theorem run_pipeline_foreground:
  "(stages \<noteq> [] \<and> \<not> (length stages = 1 \<and> is_builtin (argv (stages ! 0))) \<and>
    n = length stages \<and> r = run_pipeline w p stages False \<and>
    inj_on (os_fork w) {..<n} \<and>
    (\<forall>i<n. (\<exists>c. fst (stage_child w (forked p) n i (stages ! i)) = Exited c) \<or>
            os_fork w i \<in> fst ` set (os_finished w)) \<longrightarrow>
      children r = map (\<lambda>i. (os_fork w i, stage_child w (forked p) n i (stages ! i))) [0..<n] \<and>
      waits (trace r) = map (os_fork w) [0..<n] \<and>
      parent r = p \<and>
      (\<exists>rc. result r = Some (Return rc)) \<and>
      (\<forall>c. fst (stage_child w (forked p) n (n - 1) (stages ! (n - 1))) = Exited c \<longrightarrow>
           result r = Some (Return (c mod 256))) \<and>
      (\<forall>s. (\<forall>c. fst (stage_child w (forked p) n (n - 1) (stages ! (n - 1))) \<noteq> Exited c) \<and>
           map_of (os_finished w) (os_fork w (n - 1)) = Some s \<longrightarrow>
           result r = Some (Return (status_to_exitcode s)))) \<and>
   (length stages = 1 \<and> is_builtin (argv (stages ! 0)) \<and>
    (infile (stages ! 0) \<noteq> None \<or> outfile (stages ! 0) \<noteq> None) \<and>
    r = run_pipeline w p stages False \<longrightarrow>
      children r = [(os_fork w 0, builtin_child w (forked p) (argv (stages ! 0))
                                    (infile (stages ! 0)) (outfile (stages ! 0)))] \<and>
      waits (trace r) = [os_fork w 0] \<and>
      parent r = p \<and>
      (\<exists>c. fst (builtin_child w (forked p) (argv (stages ! 0))
                  (infile (stages ! 0)) (outfile (stages ! 0))) = Exited c \<and>
           0 \<le> c \<and> c \<le> 255 \<and> result r = Some (Return c))) \<and>
   (distinct (map fst (os_finished w)) \<and> distinct (map fst fin) \<and> set fin = set (os_finished w) \<longrightarrow>
      run_pipeline (w\<lparr>os_finished := fin\<rparr>) p stages False = run_pipeline w p stages False) \<and>
   exit_status code = (code mod 256) * 256 \<and>
   (s mod 128 = 0 \<longrightarrow> status_to_exitcode s = (s div 256) mod 256) \<and>
   (s mod 128 \<noteq> 0 \<and> s mod 128 \<noteq> 127 \<longrightarrow> status_to_exitcode s = 128 + s mod 128) \<and>
   (s mod 128 = 127 \<longrightarrow> status_to_exitcode s = 1) \<and>
   (WIFEXITED s \<longleftrightarrow> s mod 128 = 0) \<and>
   (WIFSIGNALED s \<longleftrightarrow> s mod 128 \<noteq> 0 \<and> s mod 128 \<noteq> 127)"
proof -
  have A: "children r = map (\<lambda>i. (os_fork w i, stage_child w (forked p) n i (stages ! i))) [0..<n] \<and>
      waits (trace r) = map (os_fork w) [0..<n] \<and>
      parent r = p \<and>
      (\<exists>rc. result r = Some (Return rc)) \<and>
      (\<forall>c. fst (stage_child w (forked p) n (n - 1) (stages ! (n - 1))) = Exited c \<longrightarrow>
           result r = Some (Return (c mod 256))) \<and>
      (\<forall>s. (\<forall>c. fst (stage_child w (forked p) n (n - 1) (stages ! (n - 1))) \<noteq> Exited c) \<and>
           map_of (os_finished w) (os_fork w (n - 1)) = Some s \<longrightarrow>
           result r = Some (Return (status_to_exitcode s)))"
    if ne: "stages \<noteq> []" and g: "\<not> (length stages = 1 \<and> is_builtin (argv (stages ! 0)))"
      and n: "n = length stages" and r: "r = run_pipeline w p stages False"
      and d: "inj_on (os_fork w) {..<n}"
      and t: "\<forall>i<n. (\<exists>c. fst (stage_child w (forked p) n i (stages ! i)) = Exited c) \<or>
            os_fork w i \<in> fst ` set (os_finished w)"
  proof -
    let ?last = "fst (stage_child w (forked p) n (n - 1) (stages ! (n - 1)))"
    from foreground_general [OF ne g d [unfolded n] t [unfolded n], folded n r]
    obtain s0 where
      cs: "(case ?last of
              Exited c \<Rightarrow> s0 = exit_status c
            | Replaced path av \<Rightarrow> map_of (os_finished w) (os_fork w (n - 1)) = Some s0
            | Escaped msg \<Rightarrow> map_of (os_finished w) (os_fork w (n - 1)) = Some s0)"
      and R: "r = \<lparr>result = Some (Return (status_to_exitcode s0)),
          parent = p, children = stage_kids w p stages,
          trace = map EvPipe [0..<n - 1] @ map EvFork (map (os_fork w) [0..<n])
              @ map EvClose [0..<n - 1] @ map EvWait (map (os_fork w) [0..<n])\<rparr>"
      by blast
    have 1: "children r = map (\<lambda>i. (os_fork w i, stage_child w (forked p) n i (stages ! i))) [0..<n]"
      by (simp add: R stage_kids_map n)
    have 2: "waits (trace r) = map (os_fork w) [0..<n]"
      by (simp add: R waits_append waits_EvPipe waits_EvFork_comp waits_EvClose waits_EvWait_comp)
    have 3: "parent r = p" by (simp add: R)
    have 4: "\<exists>rc. result r = Some (Return rc)" by (simp add: R)
    have 5: "result r = Some (Return (c mod 256))" if "?last = Exited c" for c
      using cs that by (simp add: R status_of_exit)
    have 6: "result r = Some (Return (status_to_exitcode s))"
      if "\<forall>c. ?last \<noteq> Exited c" "map_of (os_finished w) (os_fork w (n - 1)) = Some s" for s
      using cs that by (cases ?last) (simp_all add: R)
    from 1 2 3 4 5 6 show ?thesis by blast
  qed
  have A2: "children r = [(os_fork w 0, builtin_child w (forked p) (argv (stages ! 0))
                                    (infile (stages ! 0)) (outfile (stages ! 0)))] \<and>
      waits (trace r) = [os_fork w 0] \<and>
      parent r = p \<and>
      (\<exists>c. fst (builtin_child w (forked p) (argv (stages ! 0))
                  (infile (stages ! 0)) (outfile (stages ! 0))) = Exited c \<and>
           0 \<le> c \<and> c \<le> 255 \<and> result r = Some (Return c))"
    if h: "length stages = 1" "is_builtin (argv (stages ! 0))"
      "infile (stages ! 0) \<noteq> None \<or> outfile (stages ! 0) \<noteq> None"
      and r: "r = run_pipeline w p stages False"
  proof -
    from foreground_builtin [OF h, of w p, folded r]
    obtain c where c: "fst (builtin_child w (forked p) (argv (stages ! 0))
                   (infile (stages ! 0)) (outfile (stages ! 0))) = Exited c" "0 \<le> c" "c \<le> 255"
      and R: "r = \<lparr>result = Some (Return c), parent = p,
          children = [(os_fork w 0, builtin_child w (forked p) (argv (stages ! 0))
                                  (infile (stages ! 0)) (outfile (stages ! 0)))],
          trace = [EvFork (os_fork w 0), EvWait (os_fork w 0)]\<rparr>"
      by blast
    have "result r = Some (Return c)" by (simp add: R)
    with c have "\<exists>c. fst (builtin_child w (forked p) (argv (stages ! 0))
                  (infile (stages ! 0)) (outfile (stages ! 0))) = Exited c \<and>
           0 \<le> c \<and> c \<le> 255 \<and> result r = Some (Return c)" by blast
    moreover have "children r = [(os_fork w 0, builtin_child w (forked p) (argv (stages ! 0))
                                    (infile (stages ! 0)) (outfile (stages ! 0)))]"
      "waits (trace r) = [os_fork w 0]" "parent r = p"
      by (simp_all add: R)
    ultimately show ?thesis by blast
  qed
  have B: "run_pipeline (w\<lparr>os_finished := fin\<rparr>) p stages False = run_pipeline w p stages False"
    if "distinct (map fst (os_finished w))" "distinct (map fst fin)" "set fin = set (os_finished w)"
    using that by (intro run_pipeline_fin) (simp add: map_of_inject_set)
  have C: "(s mod 128 = 0 \<longrightarrow> status_to_exitcode s = (s div 256) mod 256) \<and>
   (s mod 128 \<noteq> 0 \<and> s mod 128 \<noteq> 127 \<longrightarrow> status_to_exitcode s = 128 + s mod 128) \<and>
   (s mod 128 = 127 \<longrightarrow> status_to_exitcode s = 1)"
    by (simp add: status_to_exitcode_def wifexited wifsignaled wexit wtermsig)
  have A': "stages \<noteq> [] \<and> \<not> (length stages = 1 \<and> is_builtin (argv (stages ! 0))) \<and>
    n = length stages \<and> r = run_pipeline w p stages False \<and>
    inj_on (os_fork w) {..<n} \<and>
    (\<forall>i<n. (\<exists>c. fst (stage_child w (forked p) n i (stages ! i)) = Exited c) \<or>
            os_fork w i \<in> fst ` set (os_finished w)) \<longrightarrow>
      children r = map (\<lambda>i. (os_fork w i, stage_child w (forked p) n i (stages ! i))) [0..<n] \<and>
      waits (trace r) = map (os_fork w) [0..<n] \<and>
      parent r = p \<and>
      (\<exists>rc. result r = Some (Return rc)) \<and>
      (\<forall>c. fst (stage_child w (forked p) n (n - 1) (stages ! (n - 1))) = Exited c \<longrightarrow>
           result r = Some (Return (c mod 256))) \<and>
      (\<forall>s. (\<forall>c. fst (stage_child w (forked p) n (n - 1) (stages ! (n - 1))) \<noteq> Exited c) \<and>
           map_of (os_finished w) (os_fork w (n - 1)) = Some s \<longrightarrow>
           result r = Some (Return (status_to_exitcode s)))"
    by (intro impI, elim conjE, rule A)
  have A2': "length stages = 1 \<and> is_builtin (argv (stages ! 0)) \<and>
    (infile (stages ! 0) \<noteq> None \<or> outfile (stages ! 0) \<noteq> None) \<and>
    r = run_pipeline w p stages False \<longrightarrow>
      children r = [(os_fork w 0, builtin_child w (forked p) (argv (stages ! 0))
                                    (infile (stages ! 0)) (outfile (stages ! 0)))] \<and>
      waits (trace r) = [os_fork w 0] \<and>
      parent r = p \<and>
      (\<exists>c. fst (builtin_child w (forked p) (argv (stages ! 0))
                  (infile (stages ! 0)) (outfile (stages ! 0))) = Exited c \<and>
           0 \<le> c \<and> c \<le> 255 \<and> result r = Some (Return c))"
    by (intro impI, elim conjE, rule A2)
  have B': "distinct (map fst (os_finished w)) \<and> distinct (map fst fin) \<and> set fin = set (os_finished w) \<longrightarrow>
      run_pipeline (w\<lparr>os_finished := fin\<rparr>) p stages False = run_pipeline w p stages False"
    by (intro impI, elim conjE, rule B)
  from A' A2' B' exit_status_eq [of code] C wifexited [of s] wifsignaled [of s]
  show ?thesis by (intro conjI) (elim conjE; assumption)+
qed


theorem run_pipeline_foreground_witness:
  "fst (parse_line_into_stages ''false | true'') =
     [\<lparr>argv = [''false''], infile = None, outfile = None\<rparr>,
      \<lparr>argv = [''true''], infile = None, outfile = None\<rparr>] \<and>
   children (run_pipeline demo_os demo_proc (fst (parse_line_into_stages ''false | true'')) False) =
     [(100, Replaced ''/bin/false'' [''false''], demo_proc\<lparr>fd1 := PipeWrite 0\<rparr>),
      (101, Replaced ''/bin/true'' [''true''], demo_proc\<lparr>fd0 := PipeRead 0\<rparr>)] \<and>
   map_of (os_finished demo_os) 100 = Some 256 \<and>
   map_of (os_finished demo_os) 101 = Some 0 \<and>
   result (run_pipeline demo_os demo_proc (fst (parse_line_into_stages ''false | true'')) False) =
     Some (Return 0) \<and>
   waits (trace (run_pipeline demo_os demo_proc (fst (parse_line_into_stages ''false | true'')) False)) =
     [100, 101] \<and>
   run_pipeline (demo_os\<lparr>os_finished := [(100, 256), (101, 0)]\<rparr>) demo_proc
       (fst (parse_line_into_stages ''false | true'')) False =
     run_pipeline demo_os demo_proc (fst (parse_line_into_stages ''false | true'')) False"
proof -
  let ?st = "[\<lparr>argv = [''false''], infile = None, outfile = None\<rparr>,
      \<lparr>argv = [''true''], infile = None, outfile = None\<rparr>]"
  let ?r = "run_pipeline demo_os demo_proc ?st False"
  have parse: "fst (parse_line_into_stages ''false | true'') = ?st"
    by code_simp
  have fin: "os_finished demo_os = [(101, 0), (100, 256)]"
    by (simp add: demo_os_def)
  have fk: "os_fork demo_os = (\<lambda>i. 100 + i)"
    by (simp add: demo_os_def)
  have fp: "forked demo_proc = demo_proc"
    by (simp add: forked_def demo_proc_def)
  have sc0: "stage_child demo_os demo_proc 2 0
        \<lparr>argv = [''false''], infile = None, outfile = None\<rparr> =
      (Replaced ''/bin/false'' [''false''], demo_proc\<lparr>fd1 := PipeWrite 0\<rparr>)"
    by code_simp
  have sc1: "stage_child demo_os demo_proc 2 (Suc 0)
        \<lparr>argv = [''true''], infile = None, outfile = None\<rparr> =
      (Replaced ''/bin/true'' [''true''], demo_proc\<lparr>fd0 := PipeRead 0\<rparr>)"
    by code_simp
  have u: "[0..<2] = [0, Suc 0]" by code_simp
  have nb: "\<not> is_builtin [''false'']" by (simp add: is_builtin_def)
  have h1: "?st \<noteq> [] \<and> \<not> (length ?st = 1 \<and> is_builtin (argv (?st ! 0))) \<and>
    2 = length ?st \<and> ?r = run_pipeline demo_os demo_proc ?st False \<and>
    inj_on (os_fork demo_os) {..<2} \<and>
    (\<forall>i<2. (\<exists>c. fst (stage_child demo_os (forked demo_proc) 2 i (?st ! i)) = Exited c) \<or>
            os_fork demo_os i \<in> fst ` set (os_finished demo_os))"
    unfolding fin fk by (simp add: inj_on_def less_2_cases_iff)
  note T = run_pipeline_foreground [where stages = ?st and n = 2 and r = ?r and w = demo_os
      and p = demo_proc and fin = "[(100, 256), (101, 0)]" and s = 0 and code = 0]
  note X = T [THEN conjunct1, THEN mp, OF h1]
  have ch: "children ?r =
     [(100, Replaced ''/bin/false'' [''false''], demo_proc\<lparr>fd1 := PipeWrite 0\<rparr>),
      (101, Replaced ''/bin/true'' [''true''], demo_proc\<lparr>fd0 := PipeRead 0\<rparr>)]"
    using X [THEN conjunct1] by (simp add: u fp sc0 sc1 fk)
  have a: "waits (trace ?r) = [100, 101]"
    using X [THEN conjunct2, THEN conjunct1] by (simp add: u fk)
  have m0: "map_of (os_finished demo_os) 100 = Some 256"
    and m1: "map_of (os_finished demo_os) 101 = Some 0"
    by (simp_all add: fin)
  have six: "(\<forall>c. fst (stage_child demo_os (forked demo_proc) 2 (2 - 1) (?st ! (2 - 1))) \<noteq> Exited c) \<and>
      map_of (os_finished demo_os) (os_fork demo_os (2 - 1)) = Some 0 \<longrightarrow>
      result ?r = Some (Return (status_to_exitcode 0))"
    using X [THEN conjunct2, THEN conjunct2, THEN conjunct2, THEN conjunct2, THEN conjunct2]
    by (rule spec)
  have b: "result ?r = Some (Return (status_to_exitcode 0))"
    by (rule six [THEN mp]) (simp add: fp sc1 fk m1)
  have z: "status_to_exitcode 0 = 0"
    using T [THEN conjunct2, THEN conjunct2, THEN conjunct2, THEN conjunct2, THEN conjunct1]
    by simp
  have h2: "distinct (map fst (os_finished demo_os)) \<and> distinct (map fst [(100::nat, 256::int), (101, 0)]) \<and>
      set [(100, 256), (101, 0)] = set (os_finished demo_os)"
    unfolding fin by auto
  note c = T [THEN conjunct2, THEN conjunct2, THEN conjunct1, THEN mp, OF h2]
  show ?thesis unfolding parse using ch m0 m1 a b c z by simp
qed

subsection \<open>Builtins and the interpreter\<close>

lemma is_builtin_iff: "is_builtin av \<longleftrightarrow> av \<noteq> [] \<and> (hd av = ''exit'' \<or> hd av = ''cd'')"
  by (cases av) (auto simp: is_builtin_def)

lemma run_pipeline_forks:
  assumes "\<not> direct_builtin stages"
  shows "parent (run_pipeline w p stages bg) = p \<and>
     length (children (run_pipeline w p stages bg)) = length stages \<and>
     (\<forall>c. result (run_pipeline w p stages bg) \<noteq> Some (Exit c))"
proof (cases "length stages = 1 \<and> is_builtin (argv (stages ! 0))")
  case True
  with assms have "infile (stages ! 0) \<noteq> None \<or> outfile (stages ! 0) \<noteq> None" by auto
  with True show ?thesis
    by (cases "os_waitpid w [(os_fork w 0, builtin_child w (forked p) (argv (stages ! 0))
                                  (infile (stages ! 0)) (outfile (stages ! 0)))] (os_fork w 0)")
       (simp_all add: run_pipeline_builtin_redir [of stages w p bg] Let_def)
next
  case False
  then show ?thesis
    by (cases "fst (wait_loop w (stage_kids w p stages) (last (map fst (stage_kids w p stages)))
                  (map fst (stage_kids w p stages)) 0)")
       (simp_all add: run_pipeline_general [of stages w p bg] Let_def stage_kids_length)
qed

lemma main_dispatch_forks:
  assumes "\<not> direct_builtin stages"
  shows "main_dispatch w p stages bg =
     (run_pipeline w p stages bg)
       \<lparr>parent := (case result (run_pipeline w p stages bg) of
                     None \<Rightarrow> p
                   | Some (Return rc) \<Rightarrow> if \<not> bg \<and> rc \<noteq> 0 then report p rc else p
                   | Some (Exit c) \<Rightarrow> p)\<rparr>"
proof -
  have m: "main_dispatch w p stages bg =
      (let r = run_pipeline w p stages bg in
         case result r of
           Some (Return rc) \<Rightarrow>
             (if \<not> bg \<and> rc \<noteq> 0 then r\<lparr>parent := report (parent r) rc\<rparr> else r)
         | _ \<Rightarrow> r)"
    using assms unfolding main_dispatch_def by presburger
  have pp: "parent (run_pipeline w p stages b) = p" for b
    using run_pipeline_forks [OF assms, of w p b] by simp
  have e: "(run_pipeline w p stages b)\<lparr>parent := p\<rparr> = run_pipeline w p stages b" for b
    by (rule run.equality) (simp_all add: pp)
  show ?thesis
  proof (cases "result (run_pipeline w p stages bg)")
    case None
    then show ?thesis unfolding m Let_def by (simp add: e)
  next
    case (Some x)
    show ?thesis
    proof (cases x)
      case (Return rc)
      show ?thesis unfolding m Let_def Some Return by (simp add: e pp)
    next
      case (Exit c)
      show ?thesis unfolding m Let_def Some Exit by (simp add: e)
    qed
  qed
qed

lemma main_dispatch_direct:
  assumes "direct_builtin stages"
  shows "main_dispatch w p stages bg =
     \<lparr>result = Some (fst (run_builtin w p (argv (stages ! 0)))),
      parent = (case fst (run_builtin w p (argv (stages ! 0))) of
                  Return rc \<Rightarrow> if rc \<noteq> 0 then report (snd (run_builtin w p (argv (stages ! 0)))) rc
                               else snd (run_builtin w p (argv (stages ! 0)))
                | Exit code \<Rightarrow> snd (run_builtin w p (argv (stages ! 0)))),
      children = [], trace = []\<rparr>"
  using assms by (auto simp: main_dispatch_def split: prod.splits ctl.splits)

lemma builtin_child_cases:
  "(setup_redirection w p fin fout = (False, p1) \<longrightarrow>
      builtin_child w p av fin fout = (Exited 1, p1)) \<and>
   (setup_redirection w p fin fout = (True, p1) \<longrightarrow>
      builtin_child w p av fin fout =
        (Exited (case fst (run_builtin w p1 av) of Return c \<Rightarrow> c | Exit c \<Rightarrow> sys_exit_code c),
         snd (run_builtin w p1 av)))"
  by (auto simp: builtin_child_def split: prod.splits ctl.splits)

text \<open>
  Claim C4 as it stands fails on the code: a builtin that is the only stage and has a
  redirection is not executed like an external command. For \<open>exit 3 > f\<close> the child
  that \<^verbatim>\<open>run_pipeline\<close> forks runs the builtin and leaves with status 3, and the call
  returns 3; the child of an external command for the same stage looks the name
  \<open>exit\<close> up in \<^verbatim>\<open>PATH\<close>, does not find it, and leaves with status 127.
\<close>

theorem builtin_redirection_counterexample:
  "is_builtin [''exit'', ''3''] \<and>
   run_pipeline demo_os demo_proc
     [\<lparr>argv = [''exit'', ''3''], infile = None, outfile = Some ''f''\<rparr>] False =
     \<lparr>result = Some (Return 3), parent = demo_proc,
      children = [(100, Exited 3, demo_proc\<lparr>fd1 := File ''f''\<rparr>)],
      trace = [EvFork 100, EvWait 100]\<rparr> \<and>
   stage_child demo_os (forked demo_proc) 1 0
     \<lparr>argv = [''exit'', ''3''], infile = None, outfile = Some ''f''\<rparr> =
     (Exited 127, demo_proc\<lparr>fd1 := File ''f'',
                   writes := [(2, ''exit: command not found'' @ [CHR 0x0A])]\<rparr>)"
  by code_simp

text \<open>
  Claim C4, amended. A command is a builtin exactly when its first token is \<open>exit\<close> or
  \<open>cd\<close>. When a builtin is the only stage and has no redirection, \<^verbatim>\<open>run_pipeline\<close>
  and the dispatch in \<^verbatim>\<open>main\<close> run it in the interpreter: no child is forked, and the
  interpreter continues in the state that \<^verbatim>\<open>run_builtin\<close> leaves (with the line about
  the exit code written when the code is not 0), or ends when the builtin is \<open>exit\<close>.
  In every other case one child is forked for each stage, the interpreter keeps its
  working directory and its descriptors 0 and 1, the call does not end the interpreter,
  and \<^verbatim>\<open>main\<close> adds only the line about the exit code. The child of a single builtin
  with redirection sets up the redirection and runs the builtin itself, leaving with its
  result; in every other pipeline the child of a stage, builtin or not, is the child of
  an external command: redirection, then \<^verbatim>\<open>exec_program\<close>.
\<close>

theorem builtin_dispatch:
  "(is_builtin av \<longleftrightarrow> av \<noteq> [] \<and> (hd av = ''exit'' \<or> hd av = ''cd'')) \<and>
   (direct_builtin stages \<longrightarrow>
      run_pipeline w p stages bg =
        \<lparr>result = Some (fst (run_builtin w p (argv (stages ! 0)))),
         parent = snd (run_builtin w p (argv (stages ! 0))), children = [], trace = []\<rparr> \<and>
      main_dispatch w p stages bg =
        \<lparr>result = Some (fst (run_builtin w p (argv (stages ! 0)))),
         parent = (case fst (run_builtin w p (argv (stages ! 0))) of
                     Return rc \<Rightarrow> if rc \<noteq> 0 then report (snd (run_builtin w p (argv (stages ! 0)))) rc
                                  else snd (run_builtin w p (argv (stages ! 0)))
                   | Exit code \<Rightarrow> snd (run_builtin w p (argv (stages ! 0)))),
         children = [], trace = []\<rparr>) \<and>
   (\<not> direct_builtin stages \<longrightarrow>
      parent (run_pipeline w p stages bg) = p \<and>
      length (children (run_pipeline w p stages bg)) = length stages \<and>
      (\<forall>c. result (run_pipeline w p stages bg) \<noteq> Some (Exit c)) \<and>
      main_dispatch w p stages bg =
        (run_pipeline w p stages bg)
          \<lparr>parent := (case result (run_pipeline w p stages bg) of
                        None \<Rightarrow> p
                      | Some (Return rc) \<Rightarrow> if \<not> bg \<and> rc \<noteq> 0 then report p rc else p
                      | Some (Exit c) \<Rightarrow> p)\<rparr> \<and>
      cwd (parent (main_dispatch w p stages bg)) = cwd p \<and>
      fd0 (parent (main_dispatch w p stages bg)) = fd0 p \<and>
      fd1 (parent (main_dispatch w p stages bg)) = fd1 p \<and>
      (\<forall>c. result (main_dispatch w p stages bg) \<noteq> Some (Exit c))) \<and>
   (length stages = 1 \<and> is_builtin (argv (stages ! 0)) \<and>
    (infile (stages ! 0) \<noteq> None \<or> outfile (stages ! 0) \<noteq> None) \<longrightarrow>
      children (run_pipeline w p stages bg) =
        [(os_fork w 0, builtin_child w (forked p) (argv (stages ! 0))
                         (infile (stages ! 0)) (outfile (stages ! 0)))]) \<and>
   (setup_redirection w q fin fout = (False, q1) \<longrightarrow>
      builtin_child w q av fin fout = (Exited 1, q1)) \<and>
   (setup_redirection w q fin fout = (True, q1) \<longrightarrow>
      builtin_child w q av fin fout =
        (Exited (case fst (run_builtin w q1 av) of Return c \<Rightarrow> c | Exit c \<Rightarrow> sys_exit_code c),
         snd (run_builtin w q1 av))) \<and>
   (\<not> (length stages = 1 \<and> is_builtin (argv (stages ! 0))) \<and> i < length stages \<longrightarrow>
      children (run_pipeline w p stages bg) ! i =
        (os_fork w i, stage_child w (forked p) (length stages) i (stages ! i)))"
proof -
  have A: "is_builtin av \<longleftrightarrow> av \<noteq> [] \<and> (hd av = ''exit'' \<or> hd av = ''cd'')"
    by (rule is_builtin_iff)
  have B: "direct_builtin stages \<longrightarrow>
      run_pipeline w p stages bg =
        \<lparr>result = Some (fst (run_builtin w p (argv (stages ! 0)))),
         parent = snd (run_builtin w p (argv (stages ! 0))), children = [], trace = []\<rparr> \<and>
      main_dispatch w p stages bg =
        \<lparr>result = Some (fst (run_builtin w p (argv (stages ! 0)))),
         parent = (case fst (run_builtin w p (argv (stages ! 0))) of
                     Return rc \<Rightarrow> if rc \<noteq> 0 then report (snd (run_builtin w p (argv (stages ! 0)))) rc
                                  else snd (run_builtin w p (argv (stages ! 0)))
                   | Exit code \<Rightarrow> snd (run_builtin w p (argv (stages ! 0)))),
         children = [], trace = []\<rparr>"
  proof
    assume h: "direct_builtin stages"
    from run_pipeline_direct [OF h, of w p bg] main_dispatch_direct [OF h, of w p bg]
    show "run_pipeline w p stages bg =
        \<lparr>result = Some (fst (run_builtin w p (argv (stages ! 0)))),
         parent = snd (run_builtin w p (argv (stages ! 0))), children = [], trace = []\<rparr> \<and>
      main_dispatch w p stages bg =
        \<lparr>result = Some (fst (run_builtin w p (argv (stages ! 0)))),
         parent = (case fst (run_builtin w p (argv (stages ! 0))) of
                     Return rc \<Rightarrow> if rc \<noteq> 0 then report (snd (run_builtin w p (argv (stages ! 0)))) rc
                                  else snd (run_builtin w p (argv (stages ! 0)))
                   | Exit code \<Rightarrow> snd (run_builtin w p (argv (stages ! 0)))),
         children = [], trace = []\<rparr>"
      by (rule conjI)
  qed
  have C: "\<not> direct_builtin stages \<longrightarrow>
      parent (run_pipeline w p stages bg) = p \<and>
      length (children (run_pipeline w p stages bg)) = length stages \<and>
      (\<forall>c. result (run_pipeline w p stages bg) \<noteq> Some (Exit c)) \<and>
      main_dispatch w p stages bg =
        (run_pipeline w p stages bg)
          \<lparr>parent := (case result (run_pipeline w p stages bg) of
                        None \<Rightarrow> p
                      | Some (Return rc) \<Rightarrow> if \<not> bg \<and> rc \<noteq> 0 then report p rc else p
                      | Some (Exit c) \<Rightarrow> p)\<rparr> \<and>
      cwd (parent (main_dispatch w p stages bg)) = cwd p \<and>
      fd0 (parent (main_dispatch w p stages bg)) = fd0 p \<and>
      fd1 (parent (main_dispatch w p stages bg)) = fd1 p \<and>
      (\<forall>c. result (main_dispatch w p stages bg) \<noteq> Some (Exit c))"
  proof
    assume h: "\<not> direct_builtin stages"
    note rp = run_pipeline_forks [OF h, of w p bg]
    note md = main_dispatch_forks [OF h, of w p bg]
    have 1: "cwd (parent (main_dispatch w p stages bg)) = cwd p"
      and 2: "fd0 (parent (main_dispatch w p stages bg)) = fd0 p"
      and 3: "fd1 (parent (main_dispatch w p stages bg)) = fd1 p"
      unfolding md
      by (auto simp: report_def eprint_def split: option.splits ctl.splits)
    have 4: "\<forall>c. result (main_dispatch w p stages bg) \<noteq> Some (Exit c)"
      unfolding md using rp by simp
    from rp md 1 2 3 4
    show "parent (run_pipeline w p stages bg) = p \<and>
      length (children (run_pipeline w p stages bg)) = length stages \<and>
      (\<forall>c. result (run_pipeline w p stages bg) \<noteq> Some (Exit c)) \<and>
      main_dispatch w p stages bg =
        (run_pipeline w p stages bg)
          \<lparr>parent := (case result (run_pipeline w p stages bg) of
                        None \<Rightarrow> p
                      | Some (Return rc) \<Rightarrow> if \<not> bg \<and> rc \<noteq> 0 then report p rc else p
                      | Some (Exit c) \<Rightarrow> p)\<rparr> \<and>
      cwd (parent (main_dispatch w p stages bg)) = cwd p \<and>
      fd0 (parent (main_dispatch w p stages bg)) = fd0 p \<and>
      fd1 (parent (main_dispatch w p stages bg)) = fd1 p \<and>
      (\<forall>c. result (main_dispatch w p stages bg) \<noteq> Some (Exit c))"
      by (intro conjI) (elim conjE; assumption)+
  qed
  have D: "length stages = 1 \<and> is_builtin (argv (stages ! 0)) \<and>
    (infile (stages ! 0) \<noteq> None \<or> outfile (stages ! 0) \<noteq> None) \<longrightarrow>
      children (run_pipeline w p stages bg) =
        [(os_fork w 0, builtin_child w (forked p) (argv (stages ! 0))
                         (infile (stages ! 0)) (outfile (stages ! 0)))]"
  proof (intro impI, elim conjE)
    assume "length stages = 1" "is_builtin (argv (stages ! 0))"
      "infile (stages ! 0) \<noteq> None \<or> outfile (stages ! 0) \<noteq> None"
    from run_pipeline_builtin_redir [OF this, of w p bg]
    show "children (run_pipeline w p stages bg) =
        [(os_fork w 0, builtin_child w (forked p) (argv (stages ! 0))
                         (infile (stages ! 0)) (outfile (stages ! 0)))]"
      by (simp add: Let_def)
  qed
  note D2 = builtin_child_cases [of w q fin fout q1 av]
  have E: "\<not> (length stages = 1 \<and> is_builtin (argv (stages ! 0))) \<and> i < length stages \<longrightarrow>
      children (run_pipeline w p stages bg) ! i =
        (os_fork w i, stage_child w (forked p) (length stages) i (stages ! i))"
  proof (intro impI, elim conjE)
    assume l: "\<not> (length stages = 1 \<and> is_builtin (argv (stages ! 0)))" and i: "i < length stages"
    from run_pipeline_general [OF l, of w p bg]
    have "children (run_pipeline w p stages bg) = stage_kids w p stages"
      by (simp add: Let_def)
    with stage_kids_nth [OF i, of w p]
    show "children (run_pipeline w p stages bg) ! i =
        (os_fork w i, stage_child w (forked p) (length stages) i (stages ! i))"
      by simp
  qed
  from A B C D D2 [THEN conjunct1] D2 [THEN conjunct2] E show ?thesis by (intro conjI)
qed

theorem builtin_dispatch_witness:
  "is_builtin [''cd'', ''/tmp''] \<and>
   run_pipeline demo_os demo_proc [\<lparr>argv = [''cd'', ''/tmp''], infile = None, outfile = None\<rparr>] False =
     \<lparr>result = Some (Return 0), parent = demo_proc\<lparr>cwd := ''/tmp''\<rparr>, children = [], trace = []\<rparr> \<and>
   main_dispatch demo_os demo_proc [\<lparr>argv = [''cd'', ''/tmp''], infile = None, outfile = None\<rparr>] False =
     \<lparr>result = Some (Return 0), parent = demo_proc\<lparr>cwd := ''/tmp''\<rparr>, children = [], trace = []\<rparr> \<and>
   parent (run_pipeline demo_os demo_proc
             [\<lparr>argv = [''cd'', ''/tmp''], infile = None, outfile = Some ''f''\<rparr>] False) = demo_proc \<and>
   children (run_pipeline demo_os demo_proc
             [\<lparr>argv = [''cd'', ''/tmp''], infile = None, outfile = Some ''f''\<rparr>] False) =
     [(100, Exited 0, demo_proc\<lparr>cwd := ''/tmp'', fd1 := File ''f''\<rparr>)] \<and>
   children (run_pipeline demo_os demo_proc
             [\<lparr>argv = [''exit''], infile = None, outfile = None\<rparr>,
              \<lparr>argv = [''true''], infile = None, outfile = None\<rparr>] False) ! 0 =
     (100, Exited 127, demo_proc\<lparr>fd1 := PipeWrite 0,
                         writes := [(2, ''exit: command not found'' @ [CHR 0x0A])]\<rparr>)"
proof -
  let ?a = "[\<lparr>argv = [''cd'', ''/tmp''], infile = None, outfile = None\<rparr>]"
  let ?b = "[\<lparr>argv = [''cd'', ''/tmp''], infile = None, outfile = Some ''f''\<rparr>]"
  let ?c = "[\<lparr>argv = [''exit''], infile = None, outfile = None\<rparr>,
             \<lparr>argv = [''true''], infile = None, outfile = None\<rparr>]"
  have b0: "is_builtin [''cd'', ''/tmp'']"
    using builtin_dispatch [where av = "[''cd'', ''/tmp'']", THEN conjunct1] by simp
  have da: "direct_builtin ?a" using b0 by simp
  have rb: "run_builtin demo_os demo_proc [''cd'', ''/tmp''] = (Return 0, demo_proc\<lparr>cwd := ''/tmp''\<rparr>)"
    by (simp add: run_builtin_def demo_os_def)
  note Ta = builtin_dispatch [where stages = ?a and w = demo_os and p = demo_proc and bg = False,
        THEN conjunct2, THEN conjunct1, THEN mp, OF da]
  have 1: "run_pipeline demo_os demo_proc ?a False =
     \<lparr>result = Some (Return 0), parent = demo_proc\<lparr>cwd := ''/tmp''\<rparr>, children = [], trace = []\<rparr>"
    using Ta [THEN conjunct1] by (simp add: rb)
  have m1: "main_dispatch demo_os demo_proc ?a False =
     \<lparr>result = Some (Return 0), parent = demo_proc\<lparr>cwd := ''/tmp''\<rparr>, children = [], trace = []\<rparr>"
    using Ta [THEN conjunct2] by (simp add: rb)
  have nb: "\<not> direct_builtin ?b" by simp
  have 2: "parent (run_pipeline demo_os demo_proc ?b False) = demo_proc"
    using builtin_dispatch [where stages = ?b and w = demo_os and p = demo_proc and bg = False,
        THEN conjunct2, THEN conjunct2, THEN conjunct1, THEN mp, OF nb, THEN conjunct1] .
  have hb: "length ?b = 1 \<and> is_builtin (argv (?b ! 0)) \<and>
    (infile (?b ! 0) \<noteq> None \<or> outfile (?b ! 0) \<noteq> None)"
    using b0 by simp
  have bc: "builtin_child demo_os (forked demo_proc) [''cd'', ''/tmp''] None (Some ''f'') =
      (Exited 0, demo_proc\<lparr>cwd := ''/tmp'', fd1 := File ''f''\<rparr>)"
    by (simp add: builtin_child_def setup_redirection_def run_builtin_def demo_os_def
          demo_proc_def forked_def)
  have 3: "children (run_pipeline demo_os demo_proc ?b False) =
     [(100, Exited 0, demo_proc\<lparr>cwd := ''/tmp'', fd1 := File ''f''\<rparr>)]"
    using builtin_dispatch [where stages = ?b and w = demo_os and p = demo_proc and bg = False,
        THEN conjunct2, THEN conjunct2, THEN conjunct2, THEN conjunct1, THEN mp, OF hb]
    by (simp add: bc) (simp add: demo_os_def)
  have hc: "\<not> (length ?c = 1 \<and> is_builtin (argv (?c ! 0))) \<and> 0 < length ?c" by simp
  have nr: "resolve_command demo_os ''exit'' = None"
    by (simp add: resolve_command_def demo_os_def is_executable_def os_path_join_def)
  have fk: "os_fork demo_os 0 = 100" by (simp add: demo_os_def)
  have sc: "stage_child demo_os (forked demo_proc) (length ?c) 0 (?c ! 0) =
      (Exited 127, demo_proc\<lparr>fd1 := PipeWrite 0,
                         writes := [(2, ''exit: command not found'' @ [CHR 0x0A])]\<rparr>)"
    by (simp add: stage_child_def setup_redirection_def exec_program_def nr eprint_def
          demo_proc_def forked_def)
  have 4: "children (run_pipeline demo_os demo_proc ?c False) ! 0 =
     (100, Exited 127, demo_proc\<lparr>fd1 := PipeWrite 0,
                         writes := [(2, ''exit: command not found'' @ [CHR 0x0A])]\<rparr>)"
    using builtin_dispatch [where stages = ?c and w = demo_os and p = demo_proc and bg = False
        and i = 0,
        THEN conjunct2, THEN conjunct2, THEN conjunct2, THEN conjunct2, THEN conjunct2,
        THEN conjunct2, THEN mp, OF hc]
    by (simp only: sc fk)
  from b0 1 m1 2 3 4 show ?thesis by (intro conjI)
qed

subsection \<open>The tokenizer\<close>

lemma many_ne: "many k s \<noteq> []"
  by (induction s) auto

lemma many_hd: "hd (many k s) = dropWhile (cls_ok k) s"
  by (induction s) (auto simp: many_ne)

lemma one_lit: "rx_match (One (Lit q)) = after_lit q"
proof
  fix s show "rx_match (One (Lit q)) s = after_lit q s" by (cases s) simp_all
qed

lemma close_quote:
  "concat (map (rx_match (One (Lit q))) (many (NotIn [q]) s)) =
     (if q \<in> set s then [tl (dropWhile (\<lambda>x. x \<noteq> q) s)] else [])"
  unfolding one_lit by (induction s) auto

lemma quoted_rx_match:
  "rx_match (quoted_rx q) (c # cs) =
     (if c = q \<and> q \<in> set cs then [tl (dropWhile (\<lambda>x. x \<noteq> q) cs)] else [])"
proof -
  have "rx_match (quoted_rx q) (c # cs) =
      (if c = q then concat (map (rx_match (One (Lit q))) (many (NotIn [q]) cs)) else [])"
    by (simp add: quoted_rx_def)
  then show ?thesis by (simp only: close_quote) simp
qed

lemma quoted_rx_Nil: "rx_match (quoted_rx q) [] = []"
  by (simp add: quoted_rx_def)

lemma bare_rx_match:
  "rx_match bare_rx (c # cs) =
     (if bare_char c then many (NotIn [CHR 0x20, CHR 0x09, CHR 0x0D, CHR 0x0A, sq, dq]) cs else [])"
  by (simp add: bare_rx_def bare_char_def)

lemma token_group_Nil: "rx_match token_group [] = []"
  by (simp add: token_group_def quoted_rx_Nil bare_rx_def)

lemma token_group_quote:
  "q = sq \<or> q = dq \<Longrightarrow>
   rx_match token_group (q # cs) =
     (if q \<in> set cs then [tl (dropWhile (\<lambda>x. x \<noteq> q) cs)] else [])"
  by (auto simp: token_group_def quoted_rx_match bare_rx_match bare_char_def)

lemma token_group_bare:
  "bare_char c \<Longrightarrow>
   hd (rx_match token_group (c # cs)) = dropWhile bare_char cs \<and>
   rx_match token_group (c # cs) \<noteq> []"
proof -
  assume b: "bare_char c"
  then have nq: "c \<noteq> sq" "c \<noteq> dq" by (auto simp: bare_char_def)
  have k: "cls_ok (NotIn [CHR 0x20, CHR 0x09, CHR 0x0D, CHR 0x0A, sq, dq]) = bare_char"
    by (auto simp: bare_char_def fun_eq_iff)
  show ?thesis
    using b nq many_hd [of "NotIn [CHR 0x20, CHR 0x09, CHR 0x0D, CHR 0x0A, sq, dq]" cs]
      many_ne [of "NotIn [CHR 0x20, CHR 0x09, CHR 0x0D, CHR 0x0A, sq, dq]" cs]
    by (simp add: token_group_def quoted_rx_match bare_rx_match k)
qed

lemma token_group_blank:
  "c \<in> set [CHR 0x20, CHR 0x09, CHR 0x0D, CHR 0x0A] \<Longrightarrow> rx_match token_group (c # cs) = []"
  by (auto simp: token_group_def quoted_rx_match bare_rx_match bare_char_def)

lemma token_re_match_alt:
  "token_re_match s = (case concat (map group_at (many Space s)) of [] \<Rightarrow> None | m # _ \<Rightarrow> Some m)"
  by (simp add: token_re_match_def group_at_def [abs_def])

lemma token_re_match_nospace:
  "\<not> isspace c \<Longrightarrow>
   token_re_match (c # cs) = (case group_at (c # cs) of [] \<Rightarrow> None | m # _ \<Rightarrow> Some m)"
  by (simp add: token_re_match_alt)

lemma take_quoted:
  assumes "q \<in> set cs"
  shows "take (length (q # cs) - length (tl (dropWhile (\<lambda>x. x \<noteq> q) cs))) (q # cs) =
     q # takeWhile (\<lambda>x. x \<noteq> q) cs @ [q]"
proof -
  let ?P = "\<lambda>x. x \<noteq> q"
  from assms have ne: "dropWhile ?P cs \<noteq> []" by (simp add: dropWhile_eq_Nil_conv)
  then have h: "hd (dropWhile ?P cs) = q" using hd_dropWhile [of ?P cs] by auto
  obtain r where r: "dropWhile ?P cs = q # r" using ne h by (cases "dropWhile ?P cs") auto
  have cs: "cs = takeWhile ?P cs @ q # r" using takeWhile_dropWhile_id [of ?P cs] r by simp
  have "q # cs = (q # takeWhile ?P cs @ [q]) @ r" using cs by simp
  moreover have "length (q # cs) - length (tl (dropWhile ?P cs)) = length (q # takeWhile ?P cs @ [q])"
    using cs r by (metis add_diff_cancel_right' calculation length_append list.sel(3))
  ultimately show ?thesis by (metis append_eq_conv_conj)
qed

lemma group_at_quote:
  assumes "q = sq \<or> q = dq"
  shows "group_at (q # cs) =
     (if q \<in> set cs
      then [(q # takeWhile (\<lambda>x. x \<noteq> q) cs @ [q], tl (dropWhile (\<lambda>x. x \<noteq> q) cs))]
      else [])"
proof (cases "q \<in> set cs")
  case True
  have tg: "rx_match token_group (q # cs) = [tl (dropWhile (\<lambda>x. x \<noteq> q) cs)]"
    using token_group_quote [OF assms, of cs] True by simp
  show ?thesis
    by (simp only: group_at_def tg list.map take_quoted [OF True] True if_True)
next
  case False
  have tg: "rx_match token_group (q # cs) = []"
    using token_group_quote [OF assms, of cs] False by simp
  show ?thesis
    by (simp only: group_at_def tg list.map False if_False)
qed

lemma take_bare:
  "take (length (c # cs) - length (dropWhile P cs)) (c # cs) = c # takeWhile P cs"
proof -
  have "c # cs = (c # takeWhile P cs) @ dropWhile P cs" by simp
  moreover have "length (c # cs) - length (dropWhile P cs) = length (c # takeWhile P cs)"
    by (metis add_diff_cancel_right' calculation length_append)
  ultimately show ?thesis by (metis append_eq_conv_conj)
qed

lemma group_at_bare:
  assumes "bare_char c"
  shows "\<exists>ms. group_at (c # cs) = (c # takeWhile bare_char cs, dropWhile bare_char cs) # ms"
proof -
  from token_group_bare [OF assms, of cs]
  obtain rs where "rx_match token_group (c # cs) = dropWhile bare_char cs # rs"
    by (cases "rx_match token_group (c # cs)") auto
  then show ?thesis
    unfolding group_at_def by (simp only: list.map take_bare) simp
qed

lemma quote_not_space: "q = sq \<or> q = dq \<Longrightarrow> \<not> isspace q"
  by (auto simp: isspace_def)

lemma strip_quotes_quoted:
  "q = sq \<or> q = dq \<Longrightarrow> strip_quotes (q # body @ [q]) = body"
  by (auto simp: strip_quotes_def)

lemma strip_quotes_bare: "bare_char c \<Longrightarrow> strip_quotes (c # cs) = c # cs"
  by (auto simp: strip_quotes_def bare_char_def)

lemma tokenize_loop_Nil: "tokenize_loop [] = []"
  by (simp add: tokenize_loop.simps)

lemma tokenize_loop_quote:
  assumes q: "q = sq \<or> q = dq" and m: "q \<in> set cs"
  shows "tokenize_loop (q # cs) =
     takeWhile (\<lambda>x. x \<noteq> q) cs # tokenize_loop (tl (dropWhile (\<lambda>x. x \<noteq> q) cs))"
proof -
  have "token_re_match (q # cs) =
      Some (q # takeWhile (\<lambda>x. x \<noteq> q) cs @ [q], tl (dropWhile (\<lambda>x. x \<noteq> q) cs))"
    using m by (simp add: token_re_match_nospace [OF quote_not_space [OF q]] group_at_quote [OF q])
  then show ?thesis
    by (subst tokenize_loop.simps) (simp add: strip_quotes_quoted [OF q])
qed

lemma tokenize_loop_unmatched:
  assumes q: "q = sq \<or> q = dq" and m: "q \<notin> set cs"
  shows "tokenize_loop (q # cs) = [q] # tokenize_loop cs"
proof -
  have "token_re_match (q # cs) = None"
    using m by (simp add: token_re_match_nospace [OF quote_not_space [OF q]] group_at_quote [OF q])
  then show ?thesis
    by (subst tokenize_loop.simps) (simp add: quote_not_space [OF q])
qed

lemma tokenize_loop_bare:
  assumes b: "bare_char c" and n: "\<not> isspace c"
  shows "tokenize_loop (c # cs) =
     (c # takeWhile bare_char cs) # tokenize_loop (dropWhile bare_char cs)"
proof -
  from group_at_bare [OF b, of cs] obtain ms where
    "group_at (c # cs) = (c # takeWhile bare_char cs, dropWhile bare_char cs) # ms" ..
  then have "token_re_match (c # cs) = Some (c # takeWhile bare_char cs, dropWhile bare_char cs)"
    by (simp add: token_re_match_nospace [OF n])
  then show ?thesis
    by (subst tokenize_loop.simps) (simp add: strip_quotes_bare [OF b])
qed

lemma token_re_match_Nil: "token_re_match [] = None"
  by (simp add: token_re_match_alt group_at_def token_group_Nil)

lemma token_re_match_blank:
  assumes "c \<in> set [CHR 0x20, CHR 0x09, CHR 0x0D, CHR 0x0A]"
  shows "token_re_match (c # cs) = token_re_match cs"
proof -
  have sp: "isspace c" using assms by (auto simp: isspace_def)
  have "group_at (c # cs) = []"
    using token_group_blank [OF assms] by (simp add: group_at_def)
  then show ?thesis
    using sp by (simp add: token_re_match_alt)
qed

lemma tokenize_loop_blank:
  assumes "c \<in> set [CHR 0x20, CHR 0x09, CHR 0x0D, CHR 0x0A]"
  shows "tokenize_loop (c # cs) = tokenize_loop cs"
proof -
  have sp: "isspace c" using assms by (auto simp: isspace_def)
  note m = token_re_match_blank [OF assms, of cs]
  show ?thesis
  proof (cases "token_re_match cs")
    case None
    then show ?thesis
      using sp m by (subst tokenize_loop.simps) simp
  next
    case (Some a)
    then have "cs \<noteq> []" using token_re_match_Nil by auto
    then show ?thesis
      using Some m
      by (subst tokenize_loop.simps, subst (2) tokenize_loop.simps) (simp split: prod.splits)
  qed
qed

lemma tokenize_spec_Nil: "tokenize_spec [] = []"
  by (simp add: tokenize_spec.simps)

lemma tokenize_spec_space: "isspace c \<Longrightarrow> tokenize_spec (c # cs) = tokenize_spec cs"
  by (subst tokenize_spec.simps, subst (2) tokenize_spec.simps) simp

lemma tokenize_spec_start:
  "\<not> isspace c \<Longrightarrow>
   tokenize_spec (c # cs) =
     (if c = sq \<or> c = dq then
        (if c \<in> set cs
         then takeWhile (\<lambda>x. x \<noteq> c) cs # tokenize_spec (tl (dropWhile (\<lambda>x. x \<noteq> c) cs))
         else [c] # tokenize_spec cs)
      else (c # takeWhile word_char cs) # tokenize_spec (dropWhile word_char cs))"
  by (subst tokenize_spec.simps) simp

lemma tokenize_loop_plain:
  "\<forall>c\<in>set s. isspace c \<longrightarrow> c \<in> set [CHR 0x20, CHR 0x09, CHR 0x0D, CHR 0x0A] \<Longrightarrow>
   tokenize_loop s = tokenize_spec s"
proof (induction s rule: length_induct)
  case (1 s)
  note ih = "1.IH" [rule_format]
  note plain = "1.prems"
  show ?case
  proof (cases s)
    case Nil
    then show ?thesis by (simp add: tokenize_loop_Nil tokenize_spec_Nil)
  next
    case (Cons c cs)
    have pcs: "\<forall>x\<in>set cs. isspace x \<longrightarrow> x \<in> set [CHR 0x20, CHR 0x09, CHR 0x0D, CHR 0x0A]"
      using plain Cons by simp
    have sub: "tokenize_loop r = tokenize_spec r" if "set r \<subseteq> set cs" "length r \<le> length cs" for r
    proof -
      have l: "length r < length s" using that Cons by simp
      have p: "\<forall>x\<in>set r. isspace x \<longrightarrow> x \<in> set [CHR 0x20, CHR 0x09, CHR 0x0D, CHR 0x0A]"
        using that pcs by blast
      show ?thesis using p by (intro ih [OF l]) blast
    qed
    show ?thesis
    proof (cases "isspace c")
      case True
      then have "c \<in> set [CHR 0x20, CHR 0x09, CHR 0x0D, CHR 0x0A]" using plain Cons by simp
      then have "tokenize_loop (c # cs) = tokenize_loop cs" by (rule tokenize_loop_blank)
      also have "\<dots> = tokenize_spec cs" by (rule sub) simp_all
      also have "\<dots> = tokenize_spec (c # cs)" using True by (simp add: tokenize_spec_space)
      finally show ?thesis using Cons by simp
    next
      case False
      note ns = False
      show ?thesis
      proof (cases "c = sq \<or> c = dq")
        case True
        note q = True
        show ?thesis
        proof (cases "c \<in> set cs")
          case True
          let ?r = "tl (dropWhile (\<lambda>x. x \<noteq> c) cs)"
          have "set ?r \<subseteq> set cs"
            by (metis (no_types, lifting) list.set_sel(2) set_dropWhileD subsetI tl_Nil)
          moreover have "length ?r \<le> length cs"
            using length_dropWhile_le [of "\<lambda>x. x \<noteq> c" cs] by simp
          ultimately have "tokenize_loop ?r = tokenize_spec ?r" by (rule sub)
          then show ?thesis
            using Cons q True ns
            by (simp add: tokenize_loop_quote [OF q True] tokenize_spec_start [OF ns])
        next
          case False
          have "tokenize_loop cs = tokenize_spec cs" by (rule sub) simp_all
          then show ?thesis
            using Cons q False ns
            by (simp add: tokenize_loop_unmatched [OF q False] tokenize_spec_start [OF ns])
        qed
      next
        case False
        then have b: "bare_char c" using ns by (auto simp: bare_char_def isspace_def)
        have eq: "\<forall>x\<in>set cs. bare_char x = word_char x"
          using pcs by (auto simp: bare_char_def word_char_def isspace_def)
        have tw: "takeWhile bare_char cs = takeWhile word_char cs"
          using eq by (intro takeWhile_cong) simp_all
        have dw: "dropWhile bare_char cs = dropWhile word_char cs"
          using eq by (intro dropWhile_cong) simp_all
        have "set (dropWhile word_char cs) \<subseteq> set cs"
          using set_dropWhileD by fastforce
        moreover have "length (dropWhile word_char cs) \<le> length cs"
          by (rule length_dropWhile_le)
        ultimately have "tokenize_loop (dropWhile word_char cs) = tokenize_spec (dropWhile word_char cs)"
          by (rule sub)
        then show ?thesis
          using Cons False
          by (simp add: tokenize_loop_bare [OF b ns] tokenize_spec_start [OF ns] tw dw)
      qed
    qed
  qed
qed

text \<open>
  Claim C10. A matched quoted run, single or double, gives its content without the two
  delimiters as one token, also when the content is empty: \<open>''\<close> and \<open>""\<close> each
  give one empty token. Such a token stays in the argument vector of the stage (as in
  \<open>echo ''\<close>), and \<^verbatim>\<open>exec_program\<close> hands the whole vector to \<^verbatim>\<open>os.execve\<close> as it
  is: when that call succeeds, the new program has the vector with its empty strings.
\<close>

theorem tokenize_quoted_runs:
  "((q = sq \<or> q = dq) \<and> q \<notin> set body \<longrightarrow>
      tokenize (q # body @ q # rest) = body # tokenize rest) \<and>
   tokenize [] = [] \<and>
   tokenize [sq, sq] = [[]] \<and>
   tokenize [dq, dq] = [[]] \<and>
   map argv (fst (parse_line_into_stages (''echo '' @ [sq, sq]))) = [[''echo'', []]] \<and>
   (resolve_command w prog = Some path \<and> py_execve w path (prog # args) = Image \<longrightarrow>
      fst (exec_program w p (prog # args)) = Replaced path (prog # args))"
proof -
  have A: "tokenize (q # body @ q # rest) = body # tokenize rest"
    if q: "q = sq \<or> q = dq" and b: "q \<notin> set body" for q body rest
  proof -
    have m: "q \<in> set (body @ q # rest)" by simp
    have tw: "takeWhile (\<lambda>x. x \<noteq> q) (body @ q # rest) = body"
      using b by (induction body) auto
    have dw: "dropWhile (\<lambda>x. x \<noteq> q) (body @ q # rest) = q # rest"
      using b by (induction body) auto
    show ?thesis
      unfolding tokenize_def using tokenize_loop_quote [OF q m] by (simp add: tw dw)
  qed
  have B: "tokenize [] = []" by (simp add: tokenize_def tokenize_loop_Nil)
  have C: "tokenize [sq, sq] = [[]]" using A [of sq "[]" "[]"] B by simp
  have D: "tokenize [dq, dq] = [[]]" using A [of dq "[]" "[]"] B by simp
  have E: "map argv (fst (parse_line_into_stages (''echo '' @ [sq, sq]))) = [[''echo'', []]]"
    by code_simp
  have F: "resolve_command w prog = Some path \<and> py_execve w path (prog # args) = Image \<longrightarrow>
      fst (exec_program w p (prog # args)) = Replaced path (prog # args)"
    by (simp add: exec_program_def)
  have A': "(q = sq \<or> q = dq) \<and> q \<notin> set body \<longrightarrow>
      tokenize (q # body @ q # rest) = body # tokenize rest"
    using A by blast
  from A' B C D E F show ?thesis by (intro conjI)
qed

theorem tokenize_quoted_runs_witness:
  "tokenize ([dq] @ ''c d'' @ [dq] @ [sq, sq]) = [''c d'', []] \<and>
   fst (exec_program demo_os demo_proc [''true'', []]) = Replaced ''/bin/true'' [''true'', []]"
proof -
  note T = tokenize_quoted_runs [where q = dq and body = "''c d''" and rest = "[sq, sq]"
      and w = demo_os and p = demo_proc and prog = "''true''" and args = "[[]]"
      and path = "''/bin/true''"]
  have h1: "(dq = sq \<or> dq = dq) \<and> dq \<notin> set ''c d''" by simp
  have r: "resolve_command demo_os ''true'' = Some ''/bin/true''"
    by (simp add: resolve_command_def demo_os_def is_executable_def os_path_join_def)
  have h2: "resolve_command demo_os ''true'' = Some ''/bin/true'' \<and>
      py_execve demo_os ''/bin/true'' (''true'' # [[]]) = Image"
    using r by (simp add: py_execve_def demo_os_def)
  have a: "tokenize ([dq] @ ''c d'' @ [dq] @ [sq, sq]) = [''c d'', []]"
    using T [THEN conjunct1, THEN mp, OF h1]
      T [THEN conjunct2, THEN conjunct2, THEN conjunct1] by simp
  have b: "fst (exec_program demo_os demo_proc [''true'', []]) = Replaced ''/bin/true'' [''true'', []]"
    using T [THEN conjunct2, THEN conjunct2, THEN conjunct2, THEN conjunct2, THEN conjunct2,
        THEN mp, OF h2] .
  from a b show ?thesis ..
qed

text \<open>
  On a segment whose white space is only space, tab, carriage return and line feed,
  \<^verbatim>\<open>tokenize\<close> gives the tokens of the specification: quoted runs without their
  delimiters, maximal runs of characters that are neither white space nor quotes, a
  quote without partner as a token of one character, white space skipped, no escape
  processing. The example of the specification gives the three tokens \<open>a b\<close>, \<open>c d\<close>
  and \<open>e\<close>, and a backslash is an ordinary character.
\<close>

lemma tokenize_plain_segments:
  "((\<forall>c\<in>set cmd. isspace c \<longrightarrow> c \<in> set [CHR 0x20, CHR 0x09, CHR 0x0D, CHR 0x0A]) \<longrightarrow>
      tokenize cmd = tokenize_spec cmd) \<and>
   tokenize ([sq] @ ''a b'' @ [sq] @ '' '' @ [dq] @ ''c d'' @ [dq] @ '' e'') =
     [''a b'', ''c d'', ''e''] \<and>
   tokenize [CHR ''a'', CHR 0x5C, CHR '' '', CHR ''b'', CHR 0x5C, sq, CHR ''c'', sq] =
     [[CHR ''a'', CHR 0x5C], [CHR ''b'', CHR 0x5C], ''c'']"
proof -
  have A: "(\<forall>c\<in>set cmd. isspace c \<longrightarrow> c \<in> set [CHR 0x20, CHR 0x09, CHR 0x0D, CHR 0x0A]) \<longrightarrow>
      tokenize cmd = tokenize_spec cmd"
    unfolding tokenize_def using tokenize_loop_plain [of cmd] by blast
  have C: "tokenize ([sq] @ ''a b'' @ [sq] @ '' '' @ [dq] @ ''c d'' @ [dq] @ '' e'') =
     [''a b'', ''c d'', ''e'']"
    by code_simp
  have D: "tokenize [CHR ''a'', CHR 0x5C, CHR '' '', CHR ''b'', CHR 0x5C, sq, CHR ''c'', sq] =
     [[CHR ''a'', CHR 0x5C], [CHR ''b'', CHR 0x5C], ''c'']"
    by code_simp
  from A C D show ?thesis by (intro conjI)
qed

text \<open>
  Claim C9 fails on the code for a segment that has, inside a word, a white space
  character other than space, tab, carriage return and line feed, such as the vertical
  tab. The pattern skips \<^verbatim>\<open>\s*\<close> before a token, and the vertical tab is white space
  there as it is for \<^verbatim>\<open>str.isspace\<close>; but the class of the characters of a bare token
  leaves out four white space characters only. So the vertical tab is skipped in front
  of a token and kept inside one: the segment \<open>a\<close>, vertical tab, \<open>b\<close> is one token,
  where the maximal runs of characters that are neither white space nor quotes are the
  two tokens \<open>a\<close> and \<open>b\<close>.
\<close>

theorem tokenize_vertical_tab:
  "isspace (CHR 0x0B) \<and>
   cls_ok Space (CHR 0x0B) \<and>
   cls_ok (NotIn [CHR 0x20, CHR 0x09, CHR 0x0D, CHR 0x0A, sq, dq]) (CHR 0x0B) \<and>
   tokenize [CHR 0x0B, CHR ''a''] = [''a''] \<and>
   tokenize [CHR ''a'', CHR 0x0B, CHR ''b''] = [[CHR ''a'', CHR 0x0B, CHR ''b'']] \<and>
   tokenize_spec [CHR ''a'', CHR 0x0B, CHR ''b''] = [''a'', ''b''] \<and>
   tokenize [CHR ''a'', CHR 0x20, CHR ''b''] = [''a'', ''b'']"
  by code_simp

subsection \<open>Stages with an empty argument vector\<close>

lemma redir_loop_fst:
  "fst (redir_loop av out fin fout) = out @ fst (redir_loop av [] None None)"
  by (subst redir_loop_acc) (simp split: prod.splits)

lemma redir_loop_empty:
  "fst (redir_loop toks out fin fout) = [] \<longleftrightarrow> out = [] \<and> redir_only toks"
proof (induction toks arbitrary: out fin fout rule: redir_only.induct)
  case 1
  show ?case by simp
next
  case (2 t)
  show ?case by simp
next
  case (3 t x rest)
  show ?case
  proof (cases "t = ''<'' \<or> t = ''>''")
    case True
    from "3.IH" True show ?thesis by auto
  next
    case False
    have "fst (redir_loop (x # rest) (out @ [t]) fin fout) \<noteq> []"
      by (subst redir_loop_fst) simp
    with False show ?thesis by simp
  qed
qed

lemma stages_loop_map:
  "stages_loop segs acc =
     acc @ map (\<lambda>seg. \<lparr>argv = fst (parse_redirections (tokenize seg)),
                        infile = fst (snd (parse_redirections (tokenize seg))),
                        outfile = snd (snd (parse_redirections (tokenize seg)))\<rparr>)
               (filter (\<lambda>seg. tokenize seg \<noteq> []) segs)"
  by (induction segs arbitrary: acc) (simp_all add: Let_def split: prod.splits)

lemma empty_stage_not_direct:
  assumes "i < length stages" "argv (stages ! i) = []"
  shows "\<not> (length stages = 1 \<and> is_builtin (argv (stages ! 0)))"
proof
  assume h: "length stages = 1 \<and> is_builtin (argv (stages ! 0))"
  with assms(1) have "i = 0" by simp
  with assms(2) h show False by (simp add: is_builtin_def)
qed

text \<open>
  Claim C1 as it stands fails on the code: for the line \<open>< f\<close> the tokenizer gives two
  tokens, so the segment is kept; \<^verbatim>\<open>parse_redirections\<close> then takes both tokens as a
  redirection, and the stage has an empty argument vector. \<^verbatim>\<open>run_pipeline\<close> forks a
  child for it.
\<close>

theorem stages_nonempty_argv_counterexample:
  "fst (parse_line_into_stages ''< f'') = [\<lparr>argv = [], infile = Some ''f'', outfile = None\<rparr>] \<and>
   map fst (children (run_pipeline demo_os demo_proc (fst (parse_line_into_stages ''< f'')) False)) =
     [100]"
  by code_simp

text \<open>
  Claim C1, amended. The stages of a line are made of the segments that have a token, in
  order, one stage for each: its argument vector is what \<^verbatim>\<open>parse_redirections\<close>
  leaves of the tokens. That vector is empty exactly when the tokens of the segment are
  redirections only, that is operators \<open><\<close> or \<open>>\<close> each followed by a token, as in
  \<open>< f\<close>; every other stage has an argument vector that is not empty. A stage with an
  empty argument vector is scheduled like any other: \<^verbatim>\<open>run_pipeline\<close> forks the child
  of its position for it. The stage is not a builtin; its child sets up the redirections
  and \<^verbatim>\<open>exec_program\<close> ends it with status 0, without looking for a program.
\<close>

theorem stages_argv_empty_iff_redirections_only:
  "fst (parse_line_into_stages line) =
     map (\<lambda>seg. \<lparr>argv = fst (parse_redirections (tokenize seg)),
                  infile = fst (snd (parse_redirections (tokenize seg))),
                  outfile = snd (snd (parse_redirections (tokenize seg)))\<rparr>)
         (filter (\<lambda>seg. tokenize seg \<noteq> []) (split_pipeline (fst (parse_background line)))) \<and>
   (fst (parse_redirections toks) = [] \<longleftrightarrow> redir_only toks) \<and>
   (segs = filter (\<lambda>seg. tokenize seg \<noteq> []) (split_pipeline (fst (parse_background line))) \<and>
    k < length segs \<longrightarrow>
      length (fst (parse_line_into_stages line)) = length segs \<and>
      tokenize (segs ! k) \<noteq> [] \<and>
      (argv (fst (parse_line_into_stages line) ! k) = [] \<longleftrightarrow> redir_only (tokenize (segs ! k)))) \<and>
   (i < length stages \<and> argv (stages ! i) = [] \<longrightarrow>
      children (run_pipeline w p stages bg) ! i =
        (os_fork w i, stage_child w (forked p) (length stages) i (stages ! i))) \<and>
   \<not> is_builtin [] \<and>
   exec_program w p [] = (Exited 0, p) \<and>
   ((\<forall>f. infile st = Some f \<longrightarrow> os_open_rd w f = None) \<and>
    (\<forall>g. outfile st = Some g \<longrightarrow> os_open_wr w g = None) \<and> argv st = [] \<longrightarrow>
      fst (stage_child w p n i st) = Exited 0 \<and>
      writes (snd (stage_child w p n i st)) = writes p)"
proof -
  let ?mk = "\<lambda>seg. \<lparr>argv = fst (parse_redirections (tokenize seg)),
                  infile = fst (snd (parse_redirections (tokenize seg))),
                  outfile = snd (snd (parse_redirections (tokenize seg)))\<rparr>"
  let ?segs = "filter (\<lambda>seg. tokenize seg \<noteq> []) (split_pipeline (fst (parse_background line)))"
  have A: "fst (parse_line_into_stages line) = map ?mk ?segs"
    by (simp add: parse_line_into_stages_def Let_def stages_loop_map split: prod.splits)
  have R: "fst (parse_redirections toks) = [] \<longleftrightarrow> redir_only toks" for toks
    using redir_loop_empty [of toks "[]" None None] by (simp add: parse_redirections_def)
  have S: "segs = ?segs \<and> k < length segs \<longrightarrow>
      length (fst (parse_line_into_stages line)) = length segs \<and>
      tokenize (segs ! k) \<noteq> [] \<and>
      (argv (fst (parse_line_into_stages line) ! k) = [] \<longleftrightarrow> redir_only (tokenize (segs ! k)))"
  proof (intro impI, elim conjE)
    assume s: "segs = ?segs" and k: "k < length segs"
    have 1: "length (fst (parse_line_into_stages line)) = length segs"
      unfolding A s by simp
    have "segs ! k \<in> set ?segs" using k s nth_mem [of k segs] by simp
    then have 2: "tokenize (segs ! k) \<noteq> []" by simp
    have "argv (fst (parse_line_into_stages line) ! k) = fst (parse_redirections (tokenize (segs ! k)))"
      unfolding A using k s by simp
    then have 3: "argv (fst (parse_line_into_stages line) ! k) = [] \<longleftrightarrow>
        redir_only (tokenize (segs ! k))"
      by (simp add: R)
    from 1 2 3 show "length (fst (parse_line_into_stages line)) = length segs \<and>
      tokenize (segs ! k) \<noteq> [] \<and>
      (argv (fst (parse_line_into_stages line) ! k) = [] \<longleftrightarrow> redir_only (tokenize (segs ! k)))"
      by (intro conjI)
  qed
  have F: "i < length stages \<and> argv (stages ! i) = [] \<longrightarrow>
      children (run_pipeline w p stages bg) ! i =
        (os_fork w i, stage_child w (forked p) (length stages) i (stages ! i))"
  proof (intro impI, elim conjE)
    assume i: "i < length stages" and e: "argv (stages ! i) = []"
    from run_pipeline_general [OF empty_stage_not_direct [OF i e], of w p bg]
    have "children (run_pipeline w p stages bg) = stage_kids w p stages"
      by (simp add: Let_def)
    with stage_kids_nth [OF i, of w p]
    show "children (run_pipeline w p stages bg) ! i =
        (os_fork w i, stage_child w (forked p) (length stages) i (stages ! i))"
      by simp
  qed
  have B: "\<not> is_builtin []" by (simp add: is_builtin_def)
  have C: "exec_program w p [] = (Exited 0, p)" by (simp add: exec_program_def)
  have D: "(\<forall>f. infile st = Some f \<longrightarrow> os_open_rd w f = None) \<and>
    (\<forall>g. outfile st = Some g \<longrightarrow> os_open_wr w g = None) \<and> argv st = [] \<longrightarrow>
      fst (stage_child w p n i st) = Exited 0 \<and>
      writes (snd (stage_child w p n i st)) = writes p"
  proof (intro impI, elim conjE)
    assume h: "\<forall>f. infile st = Some f \<longrightarrow> os_open_rd w f = None"
      "\<forall>g. outfile st = Some g \<longrightarrow> os_open_wr w g = None" and e: "argv st = []"
    let ?p2 = "(if int i < int n - 1 then (if i > 0 then p\<lparr>fd0 := PipeRead (i - 1)\<rparr> else p)\<lparr>fd1 := PipeWrite i\<rparr>
             else (if i > 0 then p\<lparr>fd0 := PipeRead (i - 1)\<rparr> else p))"
    have w2: "writes ?p2 = writes p" by simp
    from setup_redirection_ok [OF h, of ?p2] w2
    obtain p3 where s: "setup_redirection w ?p2 (infile st) (outfile st) = (True, p3)"
      and w3: "writes p3 = writes p"
      by (cases "setup_redirection w ?p2 (infile st) (outfile st)") auto
    have "stage_child w p n i st = exec_program w p3 (argv st)"
      using s by (simp add: stage_child_def Let_def)
    then show "fst (stage_child w p n i st) = Exited 0 \<and>
      writes (snd (stage_child w p n i st)) = writes p"
      using e w3 by (simp add: exec_program_def)
  qed
  from A R [of toks] S F B C D show ?thesis by (intro conjI)
qed

theorem stages_argv_empty_iff_redirections_only_witness:
  "fst (parse_line_into_stages ''ls > f | < in.txt'') =
     [\<lparr>argv = [''ls''], infile = None, outfile = Some ''f''\<rparr>,
      \<lparr>argv = [], infile = Some ''in.txt'', outfile = None\<rparr>] \<and>
   redir_only [''<'', ''in.txt''] \<and>
   children (run_pipeline demo_os demo_proc
               [\<lparr>argv = [''ls''], infile = None, outfile = Some ''f''\<rparr>,
                \<lparr>argv = [], infile = Some ''in.txt'', outfile = None\<rparr>] False) ! 1 =
     (101, Exited 0, demo_proc\<lparr>fd0 := File ''in.txt''\<rparr>) \<and>
   fst (stage_child demo_os demo_proc 1 0 \<lparr>argv = [], infile = Some ''in.txt'', outfile = None\<rparr>) =
     Exited 0"
proof -
  let ?e = "\<lparr>argv = [], infile = Some ''in.txt'', outfile = None\<rparr>"
  let ?sts = "[\<lparr>argv = [''ls''], infile = None, outfile = Some ''f''\<rparr>, ?e]"
  note T = stages_argv_empty_iff_redirections_only [where line = "''ls > f | < in.txt''"
      and toks = "[''<'', ''in.txt'']" and w = demo_os and p = demo_proc and st = ?e
      and stages = ?sts and bg = False]
  have rhs: "map (\<lambda>seg. \<lparr>argv = fst (parse_redirections (tokenize seg)),
                  infile = fst (snd (parse_redirections (tokenize seg))),
                  outfile = snd (snd (parse_redirections (tokenize seg)))\<rparr>)
         (filter (\<lambda>seg. tokenize seg \<noteq> [])
            (split_pipeline (fst (parse_background ''ls > f | < in.txt'')))) = ?sts"
    by code_simp
  have a: "fst (parse_line_into_stages ''ls > f | < in.txt'') = ?sts"
    using T [where n = 1 and i = 0, THEN conjunct1] unfolding rhs .
  have pr: "fst (parse_redirections [''<'', ''in.txt'']) = []"
    by (simp add: parse_redirections_def)
  have b: "redir_only [''<'', ''in.txt'']"
    using T [where n = 1 and i = 0, THEN conjunct2, THEN conjunct1] pr by simp
  have h1: "1 < length ?sts \<and> argv (?sts ! 1) = []" by simp
  have sc: "stage_child demo_os (forked demo_proc) (length ?sts) 1 (?sts ! 1) =
      (Exited 0, demo_proc\<lparr>fd0 := File ''in.txt''\<rparr>)"
    by code_simp
  have fk: "os_fork demo_os 1 = 101" by (simp add: demo_os_def)
  have c: "children (run_pipeline demo_os demo_proc ?sts False) ! 1 =
     (101, Exited 0, demo_proc\<lparr>fd0 := File ''in.txt''\<rparr>)"
    using T [where n = 2 and i = 1, THEN conjunct2, THEN conjunct2, THEN conjunct2,
        THEN conjunct1, THEN mp, OF h1]
    by (simp only: sc fk)
  have h2: "(\<forall>f. infile ?e = Some f \<longrightarrow> os_open_rd demo_os f = None) \<and>
    (\<forall>g. outfile ?e = Some g \<longrightarrow> os_open_wr demo_os g = None) \<and> argv ?e = []"
    by (simp add: demo_os_def)
  note d = T [where n = 1 and i = 0, THEN conjunct2, THEN conjunct2, THEN conjunct2,
      THEN conjunct2, THEN conjunct2, THEN conjunct2, THEN mp, OF h2, THEN conjunct1]
  from a b c d show ?thesis by (intro conjI)
qed

end
